theory Spec2Isabelle
  imports Main "HOL-Library.AList"
begin

section \<open>Data model of \<^verbatim>\<open>src/services/tokenService.ts\<close>\<close>

text \<open>
  The claims of a verified token: interface \<^verbatim>\<open>TokenPayload\<close>. The field \<^verbatim>\<open>id\<close> is
  written \<open>id'\<close> (HOL has a constant \<open>id\<close>) and \<^verbatim>\<open>tokenFamily?\<close> is written
  \<open>tokenFamily'\<close> (the stored record below has a field of the same name); an optional
  field is an \<open>option\<close>, \<open>None\<close> standing for \<^verbatim>\<open>undefined\<close>.
\<close>

record TokenPayload =
  id' :: string
  email :: string
  role :: string
  tokenFamily' :: "string option"

text \<open>
  What \<^verbatim>\<open>jwt.verify\<close> returns: the payload, the \<^verbatim>\<open>type\<close> discriminator of a refresh
  token and the expiry \<^verbatim>\<open>exp\<close> in seconds, both absent from a token signed without them.
\<close>

record Decoded = TokenPayload +
  type' :: "string option"
  exp :: "int option"

text \<open>
  One element of the result of \<^verbatim>\<open>getUserSessions\<close>, and interface
  \<^verbatim>\<open>RefreshTokenData\<close>, which has the same five fields and \<^verbatim>\<open>userId\<close>. Time stamps are
  the integers of \<^verbatim>\<open>Date.now()\<close> (milliseconds).
\<close>

record SessionInfo =
  tokenFamily :: string
  createdAt :: int
  lastUsedAt :: int
  userAgent :: "string option"
  ipAddress :: "string option"

record RefreshTokenData = SessionInfo +
  userId :: string

record User =
  user_id :: string
  user_email :: string
  user_role :: string

record TokenPair =
  accessToken :: string
  refreshToken :: string

record IssuedTokens = TokenPair +
  issuedFamily :: string

subsection \<open>The signer\<close>

text \<open>
  \<^verbatim>\<open>jsonwebtoken\<close> is a library outside the repository: \<^verbatim>\<open>jwt.sign\<close> and \<^verbatim>\<open>jwt.verify\<close>
  are parameters of the model. Both read the clock, so they take the time as their last
  argument. \<open>jwt_sign\<close> takes the payload, the \<^verbatim>\<open>type\<close> added to it (if any), the secret
  and the \<^verbatim>\<open>expiresIn\<close> option.
\<close>

datatype jwt_error = TokenExpiredError | JsonWebTokenError | NotBeforeError

record jwt_lib =
  jwt_sign :: "TokenPayload \<Rightarrow> string option \<Rightarrow> string \<Rightarrow> string \<Rightarrow> int \<Rightarrow> string"
  jwt_verify :: "string \<Rightarrow> string \<Rightarrow> int \<Rightarrow> jwt_error + Decoded"

text \<open>\<^verbatim>\<open>config.jwt\<close> of \<^verbatim>\<open>src/config/index.ts\<close>.\<close>

record jwt_config =
  secret :: string
  refreshSecret :: string
  expiresIn :: string
  refreshExpiresIn :: string

subsection \<open>The store\<close>

text \<open>
  The four key families of the service, \<^verbatim>\<open>`${PREFIX}${x}`\<close> for its four prefixes. The
  prefixes start with four different letters, so two keys of different families are
  different strings: a key is its family and the rest of the string.
\<close>

datatype key =
  REFRESH_TOKEN string
  | TOKEN_FAMILY string
  | USER_SESSIONS string
  | BLACKLIST string

text \<open>
  The store holds under each family what the service writes there: under a refresh token
  the JSON text of a \<^verbatim>\<open>RefreshTokenData\<close> (kept parsed: \<^verbatim>\<open>JSON.parse\<close> gives back what
  \<^verbatim>\<open>JSON.stringify\<close> was given), under a family id a token string, under a user id a set
  of family ids, under a blacklisted access token the marker \<^verbatim>\<open>'1'\<close>. String entries
  carry the time to live they were written with, in seconds. The sets are enumerated
  (\<^verbatim>\<open>sMembers\<close>, \<^verbatim>\<open>keys\<close>), so the user sessions are an association list of member
  lists: the order of a list is the order in which the store enumerates.
\<close>

record store =
  refresh_tokens :: "string \<rightharpoonup> RefreshTokenData \<times> int"
  token_families :: "string \<rightharpoonup> string \<times> int"
  user_sessions :: "(string \<times> string list) list"
  blacklist :: "string \<rightharpoonup> string \<times> int"

datatype redis_value = Json RefreshTokenData | Str string

datatype redis_cmd =
  CONNECT
  | GET key
  | SETEX key int redis_value
  | DEL key
  | SADD key string
  | SREM key string
  | SMEMBERS key
  | EXISTS key
  | KEYS key

datatype event = Done redis_cmd | Failed redis_cmd | Signed string

datatype error = Jwt jwt_error | Error string | RedisUnavailable | RedisReplyError

text \<open>
  The world a call runs in: the store, the clock (\<^verbatim>\<open>Date.now()\<close>), the trace of what
  was done so far, in order (the commands sent to the store with their outcome, and the
  tokens signed), and \<open>faults\<close>, the availability of the store for the commands to
  come: the next command fails when the head of the list is \<open>True\<close>, and every command
  succeeds once the list is empty.
\<close>

record world =
  redis :: store
  now :: int
  trace :: "event list"
  faults :: "bool list"

section \<open>Asynchronous calls that may throw\<close>

text \<open>
  An \<^verbatim>\<open>async\<close> function is a function of the world that returns its value or the error
  thrown, and the world it leaves. An error does not undo what was written before it.
\<close>

type_synonym 'a io = "world \<Rightarrow> (error + 'a) \<times> world"

definition resolve :: "'a \<Rightarrow> 'a io" where
  "resolve a w = (Inr a, w)"

definition throw :: "error \<Rightarrow> 'a io" where
  "throw e w = (Inl e, w)"

definition await :: "'a io \<Rightarrow> ('a \<Rightarrow> 'b io) \<Rightarrow> 'b io" where
  "await m f w = (case m w of (Inl e, w') \<Rightarrow> (Inl e, w') | (Inr a, w') \<Rightarrow> f a w')"

definition try_catch :: "'a io \<Rightarrow> (error \<Rightarrow> 'a io) \<Rightarrow> 'a io" where
  "try_catch m h w = (case m w of (Inl e, w') \<Rightarrow> h e w' | (Inr a, w') \<Rightarrow> (Inr a, w'))"

fun for_of :: "'a list \<Rightarrow> ('a \<Rightarrow> unit io) \<Rightarrow> unit io" where
  "for_of [] body = resolve ()"
| "for_of (x # xs) body = await (body x) (\<lambda>_. for_of xs body)"

text \<open>JavaScript truthiness of a \<^verbatim>\<open>string | undefined | null\<close>.\<close>

fun truthy :: "string option \<Rightarrow> bool" where
  "truthy None = False"
| "truthy (Some s) = (s \<noteq> [])"

text \<open>\<^verbatim>\<open>a || b\<close> on such values.\<close>

definition or_else :: "string option \<Rightarrow> string option \<Rightarrow> string option" where
  "or_else a b = (if truthy a then a else b)"

text \<open>A value inside a template literal: \<^verbatim>\<open>`${undefined}`\<close> is \<^verbatim>\<open>'undefined'\<close>.\<close>

fun template :: "string option \<Rightarrow> string" where
  "template None = ''undefined''"
| "template (Some s) = s"

section \<open>Store commands\<close>

text \<open>
  A command sent to the store. When the store is unavailable for it, the command throws
  and the store is left as it was; otherwise it is carried out on the store and returns
  its reply. Either way the trace records it.
\<close>

definition command :: "redis_cmd \<Rightarrow> (store \<Rightarrow> 'a \<times> store) \<Rightarrow> 'a io" where
  "command c f w =
     (case faults w of
        [] \<Rightarrow> (case f (redis w) of (a, s) \<Rightarrow>
                (Inr a, w\<lparr>redis := s, trace := trace w @ [Done c]\<rparr>))
      | b # bs \<Rightarrow>
          if b then (Inl RedisUnavailable, w\<lparr>trace := trace w @ [Failed c], faults := bs\<rparr>)
          else (case f (redis w) of (a, s) \<Rightarrow>
                (Inr a, w\<lparr>redis := s, trace := trace w @ [Done c], faults := bs\<rparr>)))"

text \<open>\<^verbatim>\<open>getRedisClient\<close> of \<^verbatim>\<open>src/utils/redis.ts\<close>: connecting may fail.\<close>

definition getRedisClient :: "unit io" where
  "getRedisClient = command CONNECT (\<lambda>s. ((), s))"

text \<open>\<^verbatim>\<open>SETEX\<close> refuses a time to live that is not positive.\<close>

definition setEx_or_refuse :: "key \<Rightarrow> int \<Rightarrow> redis_value \<Rightarrow> (store \<Rightarrow> store) \<Rightarrow> unit io" where
  "setEx_or_refuse k ttl v f =
     (if 0 < ttl then command (SETEX k ttl v) (\<lambda>s. ((), f s))
      else await (command (SETEX k ttl v) (\<lambda>s. ((), s))) (\<lambda>_. throw RedisReplyError))"

definition redis_get_refresh_token :: "string \<Rightarrow> RefreshTokenData option io" where
  "redis_get_refresh_token t =
     command (GET (REFRESH_TOKEN t)) (\<lambda>s. (map_option fst (refresh_tokens s t), s))"

definition redis_setEx_refresh_token :: "string \<Rightarrow> int \<Rightarrow> RefreshTokenData \<Rightarrow> unit io" where
  "redis_setEx_refresh_token t ttl d =
     setEx_or_refuse (REFRESH_TOKEN t) ttl (Json d)
       (\<lambda>s. s\<lparr>refresh_tokens := (refresh_tokens s)(t \<mapsto> (d, ttl))\<rparr>)"

definition redis_del_refresh_token :: "string \<Rightarrow> unit io" where
  "redis_del_refresh_token t =
     command (DEL (REFRESH_TOKEN t)) (\<lambda>s. ((), s\<lparr>refresh_tokens := (refresh_tokens s)(t := None)\<rparr>))"

definition redis_get_token_family :: "string \<Rightarrow> string option io" where
  "redis_get_token_family f =
     command (GET (TOKEN_FAMILY f)) (\<lambda>s. (map_option fst (token_families s f), s))"

definition redis_setEx_token_family :: "string \<Rightarrow> int \<Rightarrow> string \<Rightarrow> unit io" where
  "redis_setEx_token_family f ttl t =
     setEx_or_refuse (TOKEN_FAMILY f) ttl (Str t)
       (\<lambda>s. s\<lparr>token_families := (token_families s)(f \<mapsto> (t, ttl))\<rparr>)"

definition redis_del_token_family :: "string \<Rightarrow> unit io" where
  "redis_del_token_family f =
     command (DEL (TOKEN_FAMILY f)) (\<lambda>s. ((), s\<lparr>token_families := (token_families s)(f := None)\<rparr>))"

definition redis_exists_token_family :: "string \<Rightarrow> bool io" where
  "redis_exists_token_family f =
     command (EXISTS (TOKEN_FAMILY f)) (\<lambda>s. (token_families s f \<noteq> None, s))"

definition redis_setEx_blacklist :: "string \<Rightarrow> int \<Rightarrow> string \<Rightarrow> unit io" where
  "redis_setEx_blacklist t ttl v =
     setEx_or_refuse (BLACKLIST t) ttl (Str v)
       (\<lambda>s. s\<lparr>blacklist := (blacklist s)(t \<mapsto> (v, ttl))\<rparr>)"

definition redis_get_blacklist :: "string \<Rightarrow> string option io" where
  "redis_get_blacklist t =
     command (GET (BLACKLIST t)) (\<lambda>s. (map_option fst (blacklist s t), s))"

text \<open>
  Sets. A key that is absent is the empty set; a set that loses its last member is
  deleted, as the store does.
\<close>

definition members :: "(string \<times> string list) list \<Rightarrow> string \<Rightarrow> string list" where
  "members al u = (case map_of al u of None \<Rightarrow> [] | Some ms \<Rightarrow> ms)"

definition add_member :: "string \<Rightarrow> string \<Rightarrow> (string \<times> string list) list \<Rightarrow> (string \<times> string list) list" where
  "add_member u x al =
     (if x \<in> set (members al u) then al else AList.update u (members al u @ [x]) al)"

definition remove_member :: "string \<Rightarrow> string \<Rightarrow> (string \<times> string list) list \<Rightarrow> (string \<times> string list) list" where
  "remove_member u x al =
     (if x \<in> set (members al u)
      then (if removeAll x (members al u) = [] then AList.delete u al
            else AList.update u (removeAll x (members al u)) al)
      else al)"

definition redis_sAdd_user_sessions :: "string \<Rightarrow> string \<Rightarrow> unit io" where
  "redis_sAdd_user_sessions u x =
     command (SADD (USER_SESSIONS u) x) (\<lambda>s. ((), s\<lparr>user_sessions := add_member u x (user_sessions s)\<rparr>))"

definition redis_sRem_user_sessions :: "string \<Rightarrow> string \<Rightarrow> unit io" where
  "redis_sRem_user_sessions u x =
     command (SREM (USER_SESSIONS u) x) (\<lambda>s. ((), s\<lparr>user_sessions := remove_member u x (user_sessions s)\<rparr>))"

definition redis_sMembers_user_sessions :: "string \<Rightarrow> string list io" where
  "redis_sMembers_user_sessions u =
     command (SMEMBERS (USER_SESSIONS u)) (\<lambda>s. (members (user_sessions s) u, s))"

definition redis_del_user_sessions :: "string \<Rightarrow> unit io" where
  "redis_del_user_sessions u =
     command (DEL (USER_SESSIONS u)) (\<lambda>s. ((), s\<lparr>user_sessions := AList.delete u (user_sessions s)\<rparr>))"

text \<open>\<^verbatim>\<open>redis.keys(`${USER_SESSIONS_PREFIX}*`)\<close>: the user ids that have a set.\<close>

definition redis_keys_user_sessions :: "string list io" where
  "redis_keys_user_sessions =
     command (KEYS (USER_SESSIONS ''*'')) (\<lambda>s. (map fst (user_sessions s), s))"

section \<open>The token service\<close>

definition verify :: "jwt_lib \<Rightarrow> string \<Rightarrow> string \<Rightarrow> Decoded io" where
  "verify jwt token sec w =
     (case jwt_verify jwt token sec (now w) of
        Inl e \<Rightarrow> (Inl (Jwt e), w)
      | Inr decoded \<Rightarrow> (Inr decoded, w))"

definition sign :: "jwt_lib \<Rightarrow> TokenPayload \<Rightarrow> string option \<Rightarrow> string \<Rightarrow> string \<Rightarrow> string io" where
  "sign jwt payload ty sec expires w =
     (Inr (jwt_sign jwt payload ty sec expires (now w)),
      w\<lparr>trace := trace w @ [Signed (jwt_sign jwt payload ty sec expires (now w))]\<rparr>)"

definition Date_now :: "int io" where
  "Date_now w = (Inr (now w), w)"

definition seven_days :: int where
  "seven_days = 7 * 24 * 60 * 60"

text \<open>\<^verbatim>\<open>revokeTokenFamily\<close>, lines 219-241.\<close>

definition revokeTokenFamily :: "string option \<Rightarrow> unit io" where
  "revokeTokenFamily tokenFamily_arg =
     (if \<not> truthy tokenFamily_arg then resolve ()
      else
        await getRedisClient (\<lambda>_.
        await (redis_get_token_family (template tokenFamily_arg)) (\<lambda>refreshToken_opt.
        await (if truthy refreshToken_opt
               then redis_del_refresh_token (template refreshToken_opt)
               else resolve ()) (\<lambda>_.
        await (redis_del_token_family (template tokenFamily_arg)) (\<lambda>_.
        await redis_keys_user_sessions (\<lambda>keys_found.
        for_of keys_found (\<lambda>k. redis_sRem_user_sessions k (template tokenFamily_arg))))))))"

text \<open>
  \<^verbatim>\<open>generateTokenPair\<close>, lines 31-85. The identifier that \<^verbatim>\<open>uuidv4()\<close> draws is the
  argument \<open>uuidv4\<close>.
\<close>

definition generateTokenPair ::
  "jwt_lib \<Rightarrow> jwt_config \<Rightarrow> string \<Rightarrow> User \<Rightarrow> string option \<Rightarrow> string option \<Rightarrow> IssuedTokens io" where
  "generateTokenPair jwt config uuidv4 user userAgent_arg ipAddress_arg =
     (let payload = \<lparr>id' = user_id user, email = user_email user, role = user_role user,
                     tokenFamily' = Some uuidv4\<rparr> in
      await (sign jwt payload None (secret config) (expiresIn config)) (\<lambda>accessToken_new.
      await (sign jwt payload (Some ''refresh'') (refreshSecret config) (refreshExpiresIn config))
        (\<lambda>refreshToken_new.
      await getRedisClient (\<lambda>_.
      await Date_now (\<lambda>created.
      await Date_now (\<lambda>used.
      let refreshTokenData = \<lparr>tokenFamily = uuidv4, createdAt = created, lastUsedAt = used,
                               userAgent = userAgent_arg, ipAddress = ipAddress_arg,
                               userId = user_id user\<rparr> in
      await (redis_setEx_refresh_token refreshToken_new seven_days refreshTokenData) (\<lambda>_.
      await (redis_setEx_token_family uuidv4 seven_days refreshToken_new) (\<lambda>_.
      await (redis_sAdd_user_sessions (user_id user) uuidv4) (\<lambda>_.
      resolve \<lparr>accessToken = accessToken_new, refreshToken = refreshToken_new,
                issuedFamily = uuidv4\<rparr>)))))))))"

text \<open>
  \<^verbatim>\<open>refreshTokenRotation\<close>, lines 90-165. \<^verbatim>\<open>error instanceof jwt.TokenExpiredError\<close> is
  \<open>error = Jwt TokenExpiredError\<close>.
\<close>

definition refreshTokenRotation ::
  "jwt_lib \<Rightarrow> jwt_config \<Rightarrow> string \<Rightarrow> string option \<Rightarrow> string option \<Rightarrow> TokenPair io" where
  "refreshTokenRotation jwt config oldRefreshToken userAgent_arg ipAddress_arg =
     await getRedisClient (\<lambda>_.
     try_catch
       (await (verify jwt oldRefreshToken (refreshSecret config)) (\<lambda>decoded.
        if type' decoded \<noteq> Some ''refresh'' then throw (Error ''Invalid token type'')
        else
          await (redis_get_refresh_token oldRefreshToken) (\<lambda>tokenDataStr.
          case tokenDataStr of
            None \<Rightarrow>
              await (revokeTokenFamily (tokenFamily' decoded)) (\<lambda>_.
              throw (Error ''Refresh token not found - possible security breach''))
          | Some tokenData \<Rightarrow>
              await (redis_del_refresh_token oldRefreshToken) (\<lambda>_.
              let payload = \<lparr>id' = id' decoded, email = email decoded, role = role decoded,
                             tokenFamily' = tokenFamily' decoded\<rparr> in
              await (sign jwt payload None (secret config) (expiresIn config)) (\<lambda>accessToken_new.
              await (sign jwt payload (Some ''refresh'') (refreshSecret config)
                       (refreshExpiresIn config)) (\<lambda>refreshToken_new.
              await Date_now (\<lambda>used.
              let newTokenData = tokenData\<lparr>lastUsedAt := used,
                                   userAgent := or_else userAgent_arg (userAgent tokenData),
                                   ipAddress := or_else ipAddress_arg (ipAddress tokenData)\<rparr> in
              await (redis_setEx_refresh_token refreshToken_new seven_days newTokenData) (\<lambda>_.
              await (redis_setEx_token_family (template (tokenFamily' decoded)) seven_days
                       refreshToken_new) (\<lambda>_.
              resolve \<lparr>accessToken = accessToken_new, refreshToken = refreshToken_new\<rparr>)))))))))
       (\<lambda>error.
          await (if error = Jwt TokenExpiredError then redis_del_refresh_token oldRefreshToken
                 else resolve ()) (\<lambda>_.
          throw error)))"

text \<open>
  \<^verbatim>\<open>blacklistAccessToken\<close>, lines 170-187. A token without \<^verbatim>\<open>exp\<close> gives
  \<^verbatim>\<open>ttl = NaN\<close>, and \<^verbatim>\<open>NaN > 0\<close> is false.
\<close>

definition blacklistAccessToken :: "jwt_lib \<Rightarrow> jwt_config \<Rightarrow> string \<Rightarrow> unit io" where
  "blacklistAccessToken jwt config token =
     try_catch
       (await (verify jwt token (secret config)) (\<lambda>decoded.
        await getRedisClient (\<lambda>_.
        await Date_now (\<lambda>ms.
        let now_s = ms div 1000 in
        case exp decoded of
          None \<Rightarrow> resolve ()
        | Some e \<Rightarrow>
            let ttl = e - now_s in
            if ttl > 0 then redis_setEx_blacklist token ttl ''1'' else resolve ()))))
       (\<lambda>error. resolve ())"

text \<open>\<^verbatim>\<open>isTokenBlacklisted\<close>, lines 192-196.\<close>

definition isTokenBlacklisted :: "string \<Rightarrow> bool io" where
  "isTokenBlacklisted token =
     await getRedisClient (\<lambda>_.
     await (redis_get_blacklist token) (\<lambda>result.
     resolve (result \<noteq> None)))"

text \<open>\<^verbatim>\<open>revokeAllUserTokens\<close>, lines 201-214.\<close>

definition revokeAllUserTokens :: "string \<Rightarrow> unit io" where
  "revokeAllUserTokens uid =
     await getRedisClient (\<lambda>_.
     await (redis_sMembers_user_sessions uid) (\<lambda>tokenFamilies.
     await (for_of tokenFamilies (\<lambda>family. revokeTokenFamily (Some family))) (\<lambda>_.
     redis_del_user_sessions uid)))"

text \<open>
  \<^verbatim>\<open>getUserSessions\<close>, lines 246-277: the loop that fills \<^verbatim>\<open>sessions\<close>, then the sort.
  \<^verbatim>\<open>Array.prototype.sort\<close> is stable, and so is \<open>sort_key\<close>; the comparator
  \<^verbatim>\<open>b.lastUsedAt - a.lastUsedAt\<close> orders by \<open>lastUsedAt\<close>, larger first.
\<close>

fun collect_sessions :: "string list \<Rightarrow> SessionInfo list \<Rightarrow> SessionInfo list io" where
  "collect_sessions [] sessions = resolve sessions"
| "collect_sessions (family # rest) sessions =
     await (redis_get_token_family family) (\<lambda>refreshToken_opt.
     if truthy refreshToken_opt then
       await (redis_get_refresh_token (template refreshToken_opt)) (\<lambda>tokenDataStr.
       case tokenDataStr of
         Some tokenData \<Rightarrow>
           collect_sessions rest
             (sessions @ [\<lparr>tokenFamily = family, createdAt = createdAt tokenData,
                            lastUsedAt = lastUsedAt tokenData, userAgent = userAgent tokenData,
                            ipAddress = ipAddress tokenData\<rparr>])
       | None \<Rightarrow> collect_sessions rest sessions)
     else collect_sessions rest sessions)"

definition getUserSessions :: "string \<Rightarrow> SessionInfo list io" where
  "getUserSessions uid =
     await getRedisClient (\<lambda>_.
     await (redis_sMembers_user_sessions uid) (\<lambda>tokenFamilies.
     await (collect_sessions tokenFamilies []) (\<lambda>sessions.
     resolve (sort_key (\<lambda>s. - lastUsedAt s) sessions))))"

text \<open>\<^verbatim>\<open>cleanupExpiredTokens\<close>, lines 282-299.\<close>

definition cleanupExpiredTokens :: "unit io" where
  "cleanupExpiredTokens =
     await getRedisClient (\<lambda>_.
     await redis_keys_user_sessions (\<lambda>allUserKeys.
     for_of allUserKeys (\<lambda>userKey.
       await (redis_sMembers_user_sessions userKey) (\<lambda>tokenFamilies.
       for_of tokenFamilies (\<lambda>family.
         await (redis_exists_token_family family) (\<lambda>exists_reply.
         if \<not> exists_reply then redis_sRem_user_sessions userKey family
         else resolve ()))))))"

section \<open>Notions used in the statements\<close>

text \<open>
  The contract of the signer towards the service: a token that verifies carries the claims
  it was signed with (\<^verbatim>\<open>id\<close>, \<^verbatim>\<open>email\<close>, \<^verbatim>\<open>role\<close>, \<^verbatim>\<open>tokenFamily\<close> and the
  \<^verbatim>\<open>type\<close> discriminator).
\<close>

definition claims_round_trip :: "jwt_lib \<Rightarrow> bool" where
  "claims_round_trip jwt \<longleftrightarrow>
     (\<forall>payload ty sec expires t t' d.
        jwt_verify jwt (jwt_sign jwt payload ty sec expires t) sec t' = Inr d \<longrightarrow>
        id' d = id' payload \<and> email d = email payload \<and> role d = role payload
        \<and> tokenFamily' d = tokenFamily' payload \<and> type' d = ty)"

text \<open>The commands that write: they were sent and answered, and they change the store.\<close>

fun is_write :: "event \<Rightarrow> bool" where
  "is_write (Done (SETEX k ttl v)) = True"
| "is_write (Done (DEL k)) = True"
| "is_write (Done (SADD k x)) = True"
| "is_write (Done (SREM k x)) = True"
| "is_write e = False"

text \<open>
  A call hands a failure of the store to its caller: whatever the world, the trace only
  grows, and when a command failed during the call, the call throws the error of the
  store.
\<close>

definition propagates :: "'a io \<Rightarrow> bool" where
  "propagates m \<longleftrightarrow>
     (\<forall>w. \<exists>tr. trace (snd (m w)) = trace w @ tr
        \<and> ((\<exists>c. Failed c \<in> set tr) \<longrightarrow> fst (m w) = Inl RedisUnavailable))"

text \<open>
  A change of the store that keeps the pointers, the records and the blacklist, and
  keeps in every session set each member whose pointer exists; and a call that changes
  the store in this way only, whatever the world (also when the store fails on the way).
\<close>

definition only_dangling_removed :: "store \<Rightarrow> store \<Rightarrow> bool" where
  "only_dangling_removed s s' \<longleftrightarrow>
     token_families s' = token_families s
     \<and> refresh_tokens s' = refresh_tokens s
     \<and> blacklist s' = blacklist s
     \<and> (\<forall>u x. x \<in> set (members (user_sessions s) u) \<longrightarrow> token_families s x \<noteq> None
           \<longrightarrow> x \<in> set (members (user_sessions s') u))"

definition sweeps_safely :: "'a io \<Rightarrow> bool" where
  "sweeps_safely m \<longleftrightarrow> (\<forall>w. only_dangling_removed (redis w) (redis (snd (m w))))"

text \<open>
  A store whose session sets hold family identifiers only: neither the empty string nor
  the word \<^verbatim>\<open>undefined\<close>, which no \<^verbatim>\<open>uuidv4()\<close> is. And a call that, whatever the
  world, leaves in every session set only members that were there or that are in \<open>X\<close>.
\<close>

definition family_ids_only :: "store \<Rightarrow> bool" where
  "family_ids_only s \<longleftrightarrow>
     (\<forall>u. '''' \<notin> set (members (user_sessions s) u)
          \<and> ''undefined'' \<notin> set (members (user_sessions s) u))"

definition adds_only :: "string set \<Rightarrow> 'a io \<Rightarrow> bool" where
  "adds_only X m \<longleftrightarrow>
     (\<forall>w u. set (members (user_sessions (redis (snd (m w)))) u)
              \<subseteq> set (members (user_sessions (redis w)) u) \<union> X)"

text \<open>
  The session that a member of a session set stands for: none when its pointer is
  missing (or empty) or the record of the token it points to is missing. \<open>lookups\<close>
  are the reads that \<^verbatim>\<open>getUserSessions\<close> sends for a list of members.
\<close>

definition session_of :: "store \<Rightarrow> string \<Rightarrow> SessionInfo option" where
  "session_of s family =
     (case token_families s family of
        None \<Rightarrow> None
      | Some (t, ttl) \<Rightarrow>
          if t = [] then None
          else (case refresh_tokens s t of
                  None \<Rightarrow> None
                | Some (d, ttl') \<Rightarrow>
                    Some \<lparr>tokenFamily = family, createdAt = createdAt d,
                          lastUsedAt = lastUsedAt d, userAgent = userAgent d,
                          ipAddress = ipAddress d\<rparr>))"

fun lookups :: "store \<Rightarrow> string list \<Rightarrow> event list" where
  "lookups s [] = []"
| "lookups s (family # rest) =
     Done (GET (TOKEN_FAMILY family)) #
     (case token_families s family of
        None \<Rightarrow> []
      | Some (t, ttl) \<Rightarrow> if t = [] then [] else [Done (GET (REFRESH_TOKEN t))]) @ lookups s rest"

text \<open>
  What the two loops of \<^verbatim>\<open>cleanupExpiredTokens\<close> do to the session sets, given the
  pointers of the store: the inner loop over the members of one set, the outer loop over
  the keys.
\<close>

definition sweep_set ::
  "(string \<rightharpoonup> string \<times> int) \<Rightarrow> string \<Rightarrow> string list \<Rightarrow> (string \<times> string list) list
   \<Rightarrow> (string \<times> string list) list" where
  "sweep_set ptrs u fams al =
     fold (\<lambda>family al'. if ptrs family = None then remove_member u family al' else al')
       fams al"

definition sweep_all ::
  "(string \<rightharpoonup> string \<times> int) \<Rightarrow> string list \<Rightarrow> (string \<times> string list) list
   \<Rightarrow> (string \<times> string list) list" where
  "sweep_all ptrs ks al = fold (\<lambda>u al'. sweep_set ptrs u (members al' u) al') ks al"

text \<open>
  A small signer and a small world, for running the service on concrete inputs. The
  signer knows one user: it signs her access token as \<open>''A''\<close> and her refresh token as
  \<open>''R''\<close>; \<open>''P''\<close> is an access token of hers whose \<^verbatim>\<open>exp\<close> is the second the small
  world is in; \<open>''O''\<close> is an older refresh token of hers, \<open>''E''\<close> one that has
  expired, \<open>''N''\<close> a token of hers signed with the refresh secret but without the
  \<^verbatim>\<open>type\<close> discriminator, \<open>''Z''\<close> a refresh token whose \<^verbatim>\<open>tokenFamily\<close> is the
  empty string, and every other string has a bad signature.
\<close>

definition demo_payload :: TokenPayload where
  "demo_payload = \<lparr>id' = ''u1'', email = ''u1@example.org'', role = ''collector'',
                    tokenFamily' = Some ''f1''\<rparr>"

definition demo_decoded :: "string option \<Rightarrow> string option \<Rightarrow> int \<Rightarrow> Decoded" where
  "demo_decoded fam ty e = \<lparr>id' = ''u1'', email = ''u1@example.org'', role = ''collector'',
                             tokenFamily' = fam, type' = ty, exp = Some e\<rparr>"

definition demo_jwt :: jwt_lib where
  "demo_jwt =
     \<lparr>jwt_sign = (\<lambda>payload ty sec expires t.
         if payload = demo_payload \<and> ty = None \<and> sec = ''s'' then ''A''
         else if payload = demo_payload \<and> ty = Some ''refresh'' \<and> sec = ''rs'' then ''R''
         else ''X''),
      jwt_verify = (\<lambda>token sec t.
         if token = ''A'' \<and> sec = ''s'' then Inr (demo_decoded (Some ''f1'') None 5000)
         else if token = ''P'' \<and> sec = ''s'' then Inr (demo_decoded (Some ''f1'') None 1000)
         else if token = ''R'' \<and> sec = ''rs''
           then Inr (demo_decoded (Some ''f1'') (Some ''refresh'') 9000)
         else if token = ''O'' \<and> sec = ''rs''
           then Inr (demo_decoded (Some ''f1'') (Some ''refresh'') 8000)
         else if token = ''N'' \<and> sec = ''rs'' then Inr (demo_decoded (Some ''f1'') None 9000)
         else if token = ''Z'' \<and> sec = ''rs''
           then Inr (demo_decoded (Some '''') (Some ''refresh'') 9000)
         else if token = ''E'' \<and> sec = ''rs'' then Inl TokenExpiredError
         else Inl JsonWebTokenError)\<rparr>"

definition demo_config :: jwt_config where
  "demo_config = \<lparr>secret = ''s'', refreshSecret = ''rs'', expiresIn = ''24h'',
                   refreshExpiresIn = ''7d''\<rparr>"

definition demo_user :: User where
  "demo_user = \<lparr>user_id = ''u1'', user_email = ''u1@example.org'', user_role = ''collector''\<rparr>"

definition empty_store :: store where
  "empty_store = \<lparr>refresh_tokens = Map.empty, token_families = Map.empty, user_sessions = [],
                   blacklist = Map.empty\<rparr>"

definition world_of :: "store \<Rightarrow> world" where
  "world_of s = \<lparr>redis = s, now = 1000000, trace = [], faults = []\<rparr>"

definition demo_record :: RefreshTokenData where
  "demo_record = \<lparr>tokenFamily = ''f1'', createdAt = 1000, lastUsedAt = 2000, userAgent = None,
                   ipAddress = None, userId = ''u1''\<rparr>"

definition demo_store :: store where
  "demo_store = \<lparr>refresh_tokens = [''R'' \<mapsto> (demo_record, 604800)],
                  token_families = [''f1'' \<mapsto> (''R'', 604800)],
                  user_sessions = [(''u1'', [''f1''])],
                  blacklist = Map.empty\<rparr>"

text \<open>
  A store with two devices of one user, a member without a pointer (\<open>''f3''\<close>) and a
  member whose pointer leads to no record (\<open>''f4''\<close>).
\<close>

definition second_record :: RefreshTokenData where
  "second_record = \<lparr>tokenFamily = ''f2'', createdAt = 1500, lastUsedAt = 3000,
                     userAgent = Some ''phone'', ipAddress = None, userId = ''u1''\<rparr>"

definition two_device_store :: store where
  "two_device_store =
     \<lparr>refresh_tokens = [''R'' \<mapsto> (demo_record, 604800), ''R2'' \<mapsto> (second_record, 604800)],
      token_families = [''f1'' \<mapsto> (''R'', 604800), ''f2'' \<mapsto> (''R2'', 604800),
                        ''f4'' \<mapsto> (''lost'', 604800)],
      user_sessions = [(''u1'', [''f1'', ''f2'', ''f3'', ''f4''])],
      blacklist = Map.empty\<rparr>"

text \<open>
  More stores: one whose current refresh token is \<open>''O''\<close>; one in which the empty
  string is a member of a session set, with a pointer and a record; one that still holds
  the record of the expired token \<open>''E''\<close>.
\<close>

definition older_store :: store where
  "older_store = \<lparr>refresh_tokens = [''O'' \<mapsto> (demo_record, 600000)],
                   token_families = [''f1'' \<mapsto> (''O'', 600000)],
                   user_sessions = [(''u1'', [''f1''])],
                   blacklist = Map.empty\<rparr>"

definition blank_family_store :: store where
  "blank_family_store =
     \<lparr>refresh_tokens = [''T'' \<mapsto> (demo_record\<lparr>tokenFamily := ''''\<rparr>, 604800)],
      token_families = ['''' \<mapsto> (''T'', 604800)],
      user_sessions = [(''u1'', [''''])],
      blacklist = Map.empty\<rparr>"

definition expired_store :: store where
  "expired_store = \<lparr>refresh_tokens = [''E'' \<mapsto> (demo_record, 5)],
                     token_families = [''f1'' \<mapsto> (''E'', 5)],
                     user_sessions = [(''u1'', [''f1''])],
                     blacklist = Map.empty\<rparr>"

text \<open>A world whose store accepts the connection and fails at the first command.\<close>

definition flaky_world :: world where
  "flaky_world = \<lparr>redis = empty_store, now = 1000000, trace = [], faults = [False, True]\<rparr>"

section \<open>Running against a store that answers\<close>

lemma command_ok:
  "faults w = [] \<Longrightarrow>
   command c f w =
     (Inr (fst (f (redis w))), w\<lparr>redis := snd (f (redis w)), trace := trace w @ [Done c]\<rparr>)"
  by (simp add: command_def split: prod.splits)

lemma await_resolve [simp]: "await (resolve a) f = f a"
  by (rule ext) (simp add: await_def resolve_def)

lemma await_Inr: "m w = (Inr a, w') \<Longrightarrow> await m f w = f a w'"
  by (simp add: await_def)

lemma await_Inl: "m w = (Inl e, w') \<Longrightarrow> await m f w = (Inl e, w')"
  by (simp add: await_def)

named_theorems ok \<open>what a command does when the store answers\<close>

lemma getRedisClient_ok [ok]:
  "faults w = [] \<Longrightarrow> getRedisClient w = (Inr (), w\<lparr>trace := trace w @ [Done CONNECT]\<rparr>)"
  by (simp add: getRedisClient_def command_ok)

lemma setEx_or_refuse_ok:
  "faults w = [] \<Longrightarrow> 0 < ttl \<Longrightarrow>
   setEx_or_refuse k ttl v f w =
     (Inr (), w\<lparr>redis := f (redis w), trace := trace w @ [Done (SETEX k ttl v)]\<rparr>)"
  by (simp add: setEx_or_refuse_def command_ok)

lemma redis_get_refresh_token_ok [ok]:
  "faults w = [] \<Longrightarrow>
   redis_get_refresh_token t w =
     (Inr (map_option fst (refresh_tokens (redis w) t)),
      w\<lparr>trace := trace w @ [Done (GET (REFRESH_TOKEN t))]\<rparr>)"
  by (simp add: redis_get_refresh_token_def command_ok)

lemma redis_setEx_refresh_token_ok [ok]:
  "faults w = [] \<Longrightarrow> 0 < ttl \<Longrightarrow>
   redis_setEx_refresh_token t ttl d w =
     (Inr (), w\<lparr>redis := (redis w)\<lparr>refresh_tokens := (refresh_tokens (redis w))(t \<mapsto> (d, ttl))\<rparr>,
               trace := trace w @ [Done (SETEX (REFRESH_TOKEN t) ttl (Json d))]\<rparr>)"
  by (simp add: redis_setEx_refresh_token_def setEx_or_refuse_ok)

lemma redis_del_refresh_token_ok [ok]:
  "faults w = [] \<Longrightarrow>
   redis_del_refresh_token t w =
     (Inr (), w\<lparr>redis := (redis w)\<lparr>refresh_tokens := (refresh_tokens (redis w))(t := None)\<rparr>,
               trace := trace w @ [Done (DEL (REFRESH_TOKEN t))]\<rparr>)"
  by (simp add: redis_del_refresh_token_def command_ok)

lemma redis_get_token_family_ok [ok]:
  "faults w = [] \<Longrightarrow>
   redis_get_token_family f w =
     (Inr (map_option fst (token_families (redis w) f)),
      w\<lparr>trace := trace w @ [Done (GET (TOKEN_FAMILY f))]\<rparr>)"
  by (simp add: redis_get_token_family_def command_ok)

lemma redis_setEx_token_family_ok [ok]:
  "faults w = [] \<Longrightarrow> 0 < ttl \<Longrightarrow>
   redis_setEx_token_family f ttl t w =
     (Inr (), w\<lparr>redis := (redis w)\<lparr>token_families := (token_families (redis w))(f \<mapsto> (t, ttl))\<rparr>,
               trace := trace w @ [Done (SETEX (TOKEN_FAMILY f) ttl (Str t))]\<rparr>)"
  by (simp add: redis_setEx_token_family_def setEx_or_refuse_ok)

lemma redis_del_token_family_ok [ok]:
  "faults w = [] \<Longrightarrow>
   redis_del_token_family f w =
     (Inr (), w\<lparr>redis := (redis w)\<lparr>token_families := (token_families (redis w))(f := None)\<rparr>,
               trace := trace w @ [Done (DEL (TOKEN_FAMILY f))]\<rparr>)"
  by (simp add: redis_del_token_family_def command_ok)

lemma redis_exists_token_family_ok [ok]:
  "faults w = [] \<Longrightarrow>
   redis_exists_token_family f w =
     (Inr (token_families (redis w) f \<noteq> None),
      w\<lparr>trace := trace w @ [Done (EXISTS (TOKEN_FAMILY f))]\<rparr>)"
  by (simp add: redis_exists_token_family_def command_ok)

lemma redis_setEx_blacklist_ok [ok]:
  "faults w = [] \<Longrightarrow> 0 < ttl \<Longrightarrow>
   redis_setEx_blacklist t ttl v w =
     (Inr (), w\<lparr>redis := (redis w)\<lparr>blacklist := (blacklist (redis w))(t \<mapsto> (v, ttl))\<rparr>,
               trace := trace w @ [Done (SETEX (BLACKLIST t) ttl (Str v))]\<rparr>)"
  by (simp add: redis_setEx_blacklist_def setEx_or_refuse_ok)

lemma redis_get_blacklist_ok [ok]:
  "faults w = [] \<Longrightarrow>
   redis_get_blacklist t w =
     (Inr (map_option fst (blacklist (redis w) t)),
      w\<lparr>trace := trace w @ [Done (GET (BLACKLIST t))]\<rparr>)"
  by (simp add: redis_get_blacklist_def command_ok)

lemma redis_sAdd_user_sessions_ok [ok]:
  "faults w = [] \<Longrightarrow>
   redis_sAdd_user_sessions u x w =
     (Inr (), w\<lparr>redis := (redis w)\<lparr>user_sessions := add_member u x (user_sessions (redis w))\<rparr>,
               trace := trace w @ [Done (SADD (USER_SESSIONS u) x)]\<rparr>)"
  by (simp add: redis_sAdd_user_sessions_def command_ok)

lemma redis_sRem_user_sessions_ok [ok]:
  "faults w = [] \<Longrightarrow>
   redis_sRem_user_sessions u x w =
     (Inr (), w\<lparr>redis := (redis w)\<lparr>user_sessions := remove_member u x (user_sessions (redis w))\<rparr>,
               trace := trace w @ [Done (SREM (USER_SESSIONS u) x)]\<rparr>)"
  by (simp add: redis_sRem_user_sessions_def command_ok)

lemma redis_sMembers_user_sessions_ok [ok]:
  "faults w = [] \<Longrightarrow>
   redis_sMembers_user_sessions u w =
     (Inr (members (user_sessions (redis w)) u),
      w\<lparr>trace := trace w @ [Done (SMEMBERS (USER_SESSIONS u))]\<rparr>)"
  by (simp add: redis_sMembers_user_sessions_def command_ok)

lemma redis_del_user_sessions_ok [ok]:
  "faults w = [] \<Longrightarrow>
   redis_del_user_sessions u w =
     (Inr (), w\<lparr>redis := (redis w)\<lparr>user_sessions := AList.delete u (user_sessions (redis w))\<rparr>,
               trace := trace w @ [Done (DEL (USER_SESSIONS u))]\<rparr>)"
  by (simp add: redis_del_user_sessions_def command_ok)

lemma redis_keys_user_sessions_ok [ok]:
  "faults w = [] \<Longrightarrow>
   redis_keys_user_sessions w =
     (Inr (map fst (user_sessions (redis w))),
      w\<lparr>trace := trace w @ [Done (KEYS (USER_SESSIONS ''*''))]\<rparr>)"
  by (simp add: redis_keys_user_sessions_def command_ok)

lemma members_add_member:
  "members (add_member u x al) u' =
     (if u' = u \<and> x \<notin> set (members al u) then members al u @ [x] else members al u')"
  by (simp add: add_member_def members_def update_conv')

lemma members_remove_member:
  "members (remove_member u x al) u' =
     (if u' = u then removeAll x (members al u) else members al u')"
  by (auto simp add: remove_member_def members_def update_conv' delete_conv'
      split: option.splits)

lemma members_Nil [simp]: "members [] u = []"
  by (simp add: members_def)

lemma members_not_key: "u \<notin> set (map fst al) \<Longrightarrow> members al u = []"
  by (simp add: members_def map_of_eq_None_iff [THEN iffD2])

lemma demo_jwt_round_trip: "claims_round_trip demo_jwt"
  by (auto simp add: claims_round_trip_def demo_jwt_def demo_payload_def demo_decoded_def
      split: if_splits)

section \<open>Issuing\<close>

lemma generateTokenPair_ok:
  assumes "faults w = []"
  shows "generateTokenPair jwt config uuid user ua ip w =
    (let payload = \<lparr>id' = user_id user, email = user_email user, role = user_role user,
                     tokenFamily' = Some uuid\<rparr>;
         a = jwt_sign jwt payload None (secret config) (expiresIn config) (now w);
         r = jwt_sign jwt payload (Some ''refresh'') (refreshSecret config)
               (refreshExpiresIn config) (now w);
         d = \<lparr>tokenFamily = uuid, createdAt = now w, lastUsedAt = now w, userAgent = ua,
               ipAddress = ip, userId = user_id user\<rparr>
     in (Inr \<lparr>accessToken = a, refreshToken = r, issuedFamily = uuid\<rparr>,
         w\<lparr>redis := (redis w)
              \<lparr>refresh_tokens := (refresh_tokens (redis w))(r \<mapsto> (d, 604800)),
               token_families := (token_families (redis w))(uuid \<mapsto> (r, 604800)),
               user_sessions := add_member (user_id user) uuid (user_sessions (redis w))\<rparr>,
            trace := trace w @
              [Signed a, Signed r, Done CONNECT,
               Done (SETEX (REFRESH_TOKEN r) 604800 (Json d)),
               Done (SETEX (TOKEN_FAMILY uuid) 604800 (Str r)),
               Done (SADD (USER_SESSIONS (user_id user)) uuid)]\<rparr>))"
  using assms
  by (simp add: generateTokenPair_def Let_def sign_def await_def Date_now_def ok
      seven_days_def resolve_def)

lemma round_trip_family:
  assumes "claims_round_trip jwt"
    and "jwt_verify jwt (jwt_sign jwt payload ty sec expires t) sec t' = Inr c"
  shows "tokenFamily' c = tokenFamily' payload"
  using assms unfolding claims_round_trip_def by blast

text \<open>
  C3. A call of \<^verbatim>\<open>generateTokenPair\<close> against a store that answers succeeds. The two
  tokens it returns are signed over the same payload, whose \<^verbatim>\<open>tokenFamily\<close> is the
  identifier drawn by \<^verbatim>\<open>uuidv4()\<close>, so with a signer that keeps the claims both decode
  to that family. Afterwards the store holds the record under the refresh token and the
  pointer from the family to that token, both written with 7 days (604800 seconds) to
  live, and the family is in the session set of the user. After signing the two tokens
  the call asked for the connection and sent exactly three writes.
\<close>

theorem generateTokenPair_issues:
  assumes "faults w = []"
    and "generateTokenPair jwt config uuid user ua ip w = (result, w')"
  shows "\<exists>out d payload. result = Inr out \<and> issuedFamily out = uuid
    \<and> tokenFamily' payload = Some uuid
    \<and> accessToken out = jwt_sign jwt payload None (secret config) (expiresIn config) (now w)
    \<and> refreshToken out = jwt_sign jwt payload (Some ''refresh'') (refreshSecret config)
         (refreshExpiresIn config) (now w)
    \<and> (claims_round_trip jwt \<longrightarrow>
         (\<forall>t c. jwt_verify jwt (accessToken out) (secret config) t = Inr c
               \<longrightarrow> tokenFamily' c = Some uuid)
         \<and> (\<forall>t c. jwt_verify jwt (refreshToken out) (refreshSecret config) t = Inr c
               \<longrightarrow> tokenFamily' c = Some uuid))
    \<and> refresh_tokens (redis w') (refreshToken out) = Some (d, 7 * 24 * 60 * 60)
    \<and> tokenFamily d = uuid \<and> userId d = user_id user
    \<and> token_families (redis w') uuid = Some (refreshToken out, 7 * 24 * 60 * 60)
    \<and> uuid \<in> set (members (user_sessions (redis w')) (user_id user))
    \<and> trace w' = trace w @
         [Signed (accessToken out), Signed (refreshToken out), Done CONNECT,
          Done (SETEX (REFRESH_TOKEN (refreshToken out)) (7 * 24 * 60 * 60) (Json d)),
          Done (SETEX (TOKEN_FAMILY uuid) (7 * 24 * 60 * 60) (Str (refreshToken out))),
          Done (SADD (USER_SESSIONS (user_id user)) uuid)]
    \<and> length (filter is_write (drop (length (trace w)) (trace w'))) = 3"
proof -
  let ?payload = "\<lparr>id' = user_id user, email = user_email user, role = user_role user,
                    tokenFamily' = Some uuid\<rparr>"
  have fam: "tokenFamily' c = Some uuid"
    if "claims_round_trip jwt"
      and "jwt_verify jwt (jwt_sign jwt ?payload ty sec expires (now w)) sec t = Inr c"
    for ty sec expires t c
    using round_trip_family [OF that] by simp
  let ?a = "jwt_sign jwt ?payload None (secret config) (expiresIn config) (now w)"
  let ?r = "jwt_sign jwt ?payload (Some ''refresh'') (refreshSecret config)
              (refreshExpiresIn config) (now w)"
  let ?d = "\<lparr>tokenFamily = uuid, createdAt = now w, lastUsedAt = now w, userAgent = ua,
             ipAddress = ip, userId = user_id user\<rparr>"
  let ?out = "\<lparr>accessToken = ?a, refreshToken = ?r, issuedFamily = uuid\<rparr>"
  from assms(2) have res: "result = Inr ?out"
    and w': "w' = w\<lparr>redis := (redis w)
              \<lparr>refresh_tokens := (refresh_tokens (redis w))(?r \<mapsto> (?d, 604800)),
               token_families := (token_families (redis w))(uuid \<mapsto> (?r, 604800)),
               user_sessions := add_member (user_id user) uuid (user_sessions (redis w))\<rparr>,
            trace := trace w @
              [Signed ?a, Signed ?r, Done CONNECT,
               Done (SETEX (REFRESH_TOKEN ?r) 604800 (Json ?d)),
               Done (SETEX (TOKEN_FAMILY uuid) 604800 (Str ?r)),
               Done (SADD (USER_SESSIONS (user_id user)) uuid)]\<rparr>"
    unfolding generateTokenPair_ok [OF assms(1)] Let_def by simp_all
  show ?thesis
    apply (rule exI [of _ ?out])
    apply (rule exI [of _ ?d])
    apply (rule exI [of _ ?payload])
    unfolding res w'
    apply (simp add: members_add_member)
    apply (blast intro: fam)
    done
qed

theorem generateTokenPair_issues_witness:
  "faults (world_of empty_store) = [] \<and> claims_round_trip demo_jwt
   \<and> (\<exists>w'. generateTokenPair demo_jwt demo_config ''f1'' demo_user None None (world_of empty_store)
             = (Inr \<lparr>accessToken = ''A'', refreshToken = ''R'', issuedFamily = ''f1''\<rparr>, w')
        \<and> jwt_verify demo_jwt ''A'' ''s'' 0 = Inr (demo_decoded (Some ''f1'') None 5000)
        \<and> jwt_verify demo_jwt ''R'' ''rs'' 0
          = Inr (demo_decoded (Some ''f1'') (Some ''refresh'') 9000)
        \<and> token_families (redis w') ''f1'' = Some (''R'', 604800)
        \<and> members (user_sessions (redis w')) ''u1'' = [''f1'']
        \<and> length (trace w') = 6)"
proof -
  have h1: "faults (world_of empty_store) = []"
    by (simp add: world_of_def)
  obtain result w' where run:
    "generateTokenPair demo_jwt demo_config ''f1'' demo_user None None (world_of empty_store)
       = (result, w')"
    by force
  have out: "result = Inr \<lparr>accessToken = ''A'', refreshToken = ''R'', issuedFamily = ''f1''\<rparr>"
    using run unfolding generateTokenPair_ok [OF h1] Let_def
    by (simp add: demo_jwt_def demo_config_def demo_user_def demo_payload_def)
  have mem: "members (user_sessions (redis w')) ''u1'' = [''f1'']"
    using run unfolding generateTokenPair_ok [OF h1] Let_def
    by (auto simp add: demo_user_def members_add_member world_of_def empty_store_def)
  have v1: "jwt_verify demo_jwt ''A'' ''s'' 0 = Inr (demo_decoded (Some ''f1'') None 5000)"
    and v2: "jwt_verify demo_jwt ''R'' ''rs'' 0
          = Inr (demo_decoded (Some ''f1'') (Some ''refresh'') 9000)"
    by (simp_all add: demo_jwt_def)
  from generateTokenPair_issues [OF h1 run] out
  have tf: "token_families (redis w') ''f1'' = Some (''R'', 604800)"
    and len: "length (trace w') = 6"
    by (auto simp add: world_of_def)
  from run out have "generateTokenPair demo_jwt demo_config ''f1'' demo_user None None
      (world_of empty_store)
      = (Inr \<lparr>accessToken = ''A'', refreshToken = ''R'', issuedFamily = ''f1''\<rparr>, w')"
    by simp
  with h1 demo_jwt_round_trip v1 v2 tf mem len show ?thesis
    by blast
qed

section \<open>Revoking\<close>

lemma for_of_sRem_ok:
  "faults w = [] \<Longrightarrow>
   for_of ks (\<lambda>k. redis_sRem_user_sessions k f) w =
     (Inr (), w\<lparr>redis := (redis w)\<lparr>user_sessions := fold (\<lambda>k. remove_member k f) ks (user_sessions (redis w))\<rparr>,
               trace := trace w @ map (\<lambda>k. Done (SREM (USER_SESSIONS k) f)) ks\<rparr>)"
proof (induction ks arbitrary: w)
  case Nil
  then show ?case by (simp add: resolve_def)
next
  case (Cons k ks)
  then show ?case
    by (simp add: await_def ok)
qed

lemma revokeTokenFamily_ok:
  assumes "faults w = []" and "f \<noteq> []"
  shows "revokeTokenFamily (Some f) w =
    (Inr (),
     w\<lparr>redis := (redis w)
          \<lparr>refresh_tokens :=
             (case token_families (redis w) f of
                None \<Rightarrow> refresh_tokens (redis w)
              | Some (t, ttl) \<Rightarrow> if t \<noteq> [] then (refresh_tokens (redis w))(t := None)
                                 else refresh_tokens (redis w)),
           token_families := (token_families (redis w))(f := None),
           user_sessions := fold (\<lambda>k. remove_member k f) (map fst (user_sessions (redis w)))
                              (user_sessions (redis w))\<rparr>,
        trace := trace w @ [Done CONNECT, Done (GET (TOKEN_FAMILY f))]
           @ (case token_families (redis w) f of
                None \<Rightarrow> []
              | Some (t, ttl) \<Rightarrow> if t \<noteq> [] then [Done (DEL (REFRESH_TOKEN t))] else [])
           @ [Done (DEL (TOKEN_FAMILY f)), Done (KEYS (USER_SESSIONS ''*''))]
           @ map (\<lambda>k. Done (SREM (USER_SESSIONS k) f)) (map fst (user_sessions (redis w)))\<rparr>)"
  using assms
  by (auto simp add: revokeTokenFamily_def await_def ok for_of_sRem_ok resolve_def split: option.splits)

lemma members_fold_remove:
  "members (fold (\<lambda>k. remove_member k f) ks al) u =
     (if u \<in> set ks then removeAll f (members al u) else members al u)"
  by (induction ks arbitrary: al) (auto simp add: members_remove_member)

lemma remove_member_absent: "f \<notin> set (members al u) \<Longrightarrow> remove_member u f al = al"
  by (simp add: remove_member_def)

lemma fold_remove_absent:
  "\<forall>u. f \<notin> set (members al u) \<Longrightarrow> fold (\<lambda>k. remove_member k f) ks al = al"
  by (induction ks) (simp_all add: remove_member_absent)

lemma members_after_sweep:
  "f \<notin> set (members (fold (\<lambda>k. remove_member k f) (map fst al) al) u)"
  by (cases "u \<in> set (map fst al)") (simp_all add: members_fold_remove members_not_key)

lemma revokeTokenFamily_skip:
  "\<not> truthy fam \<Longrightarrow> revokeTokenFamily fam w = (Inr (), w)"
  by (simp add: revokeTokenFamily_def resolve_def)

lemma revokeTokenFamily_faults:
  assumes "faults w = []"
  shows "faults (snd (revokeTokenFamily fam w)) = [] \<and> fst (revokeTokenFamily fam w) = Inr ()"
proof (cases "truthy fam")
  case False
  with assms show ?thesis by (simp add: revokeTokenFamily_skip)
next
  case True
  then obtain f where "fam = Some f" and "f \<noteq> []"
    by (cases fam) auto
  then show ?thesis
    using assms by (simp add: revokeTokenFamily_ok)
qed

text \<open>
  C10. A falsy argument (\<^verbatim>\<open>undefined\<close>, which the breach path of the rotation passes
  for a token without a \<^verbatim>\<open>tokenFamily\<close> claim, or the empty string) makes
  \<^verbatim>\<open>revokeTokenFamily\<close> return at once: no command is sent, not even the connection is
  asked for, and the world (store, trace and all) is the one it was called in.
\<close>

theorem revokeTokenFamily_falsy:
  "\<not> truthy tokenFamily_arg \<Longrightarrow> revokeTokenFamily tokenFamily_arg w = (Inr (), w)"
  by (simp add: revokeTokenFamily_def resolve_def)

theorem revokeTokenFamily_falsy_witness:
  "\<not> truthy (Some '''') \<and> \<not> truthy None
   \<and> (\<forall>w. revokeTokenFamily (Some '''') w = (Inr (), w))
   \<and> (\<forall>w. revokeTokenFamily None w = (Inr (), w))"
  using revokeTokenFamily_falsy [of "Some ''''"] revokeTokenFamily_falsy [of None]
  by simp

text \<open>
  C5. \<^verbatim>\<open>revokeTokenFamily\<close> is idempotent: against a store that answers, for every
  argument and every store, a call followed at once by a second call with the same
  argument returns normally both times, and the second call leaves the store exactly as
  the first call left it.
\<close>

theorem revokeTokenFamily_idempotent:
  assumes "faults w = []"
    and "revokeTokenFamily fam w = (r1, w1)"
    and "revokeTokenFamily fam w1 = (r2, w2)"
  shows "r1 = Inr () \<and> r2 = Inr () \<and> redis w2 = redis w1"
proof (cases "truthy fam")
  case False
  with assms show ?thesis
    by (simp add: revokeTokenFamily_skip)
next
  case True
  then obtain f where fam: "fam = Some f" and f: "f \<noteq> []"
    by (cases fam) auto
  from assms(1,2) have w1: "faults w1 = []" and r1: "r1 = Inr ()"
    using revokeTokenFamily_faults [of w fam] by simp_all
  have gone: "token_families (redis w1) f = None"
    and swept: "\<forall>u. f \<notin> set (members (user_sessions (redis w1)) u)"
    using assms(2) unfolding fam revokeTokenFamily_ok [OF assms(1) f]
    by (auto simp add: members_after_sweep)
  from assms(3) show ?thesis
    unfolding fam revokeTokenFamily_ok [OF w1 f]
    by (auto simp add: r1 gone fun_upd_idem fold_remove_absent [OF swept])
qed

theorem revokeTokenFamily_idempotent_witness:
  "faults (world_of demo_store) = []
   \<and> fst (revokeTokenFamily (Some ''f1'') (world_of demo_store)) = Inr ()
   \<and> redis (snd (revokeTokenFamily (Some ''f1'') (world_of demo_store))) = empty_store
   \<and> fst (revokeTokenFamily (Some ''f1'') (snd (revokeTokenFamily (Some ''f1'') (world_of demo_store)))) = Inr ()
   \<and> redis (snd (revokeTokenFamily (Some ''f1'') (snd (revokeTokenFamily (Some ''f1'') (world_of demo_store))))) = empty_store"
proof -
  have h: "faults (world_of demo_store) = []"
    by (simp add: world_of_def)
  have first: "redis (snd (revokeTokenFamily (Some ''f1'') (world_of demo_store))) = empty_store"
    unfolding revokeTokenFamily_ok [OF h, of "''f1''", simplified]
    by (simp add: world_of_def demo_store_def empty_store_def remove_member_def members_def)
  from revokeTokenFamily_idempotent [OF h surjective_pairing surjective_pairing] first h
  show ?thesis
    by simp
qed

section \<open>Listing sessions\<close>

lemma collect_sessions_ok:
  "faults w = [] \<Longrightarrow>
   collect_sessions fams acc w =
     (Inr (acc @ List.map_filter (session_of (redis w)) fams),
      w\<lparr>trace := trace w @ lookups (redis w) fams\<rparr>)"
proof (induction fams arbitrary: acc w)
  case Nil
  then show ?case by (simp add: resolve_def List.map_filter_simps)
next
  case (Cons family rest)
  note ok_w = \<open>faults w = []\<close>
  show ?case
  proof (cases "token_families (redis w) family")
    case None
    then have "session_of (redis w) family = None"
      by (simp add: session_of_def)
    with None ok_w show ?thesis
      by (simp add: await_def ok List.map_filter_simps Cons.IH)
  next
    case (Some p)
    obtain t ttl where p: "p = (t, ttl)" by (cases p)
    show ?thesis
    proof (cases "t = []")
      case True
      with Some p have "session_of (redis w) family = None"
        by (simp add: session_of_def)
      with Some p True ok_w show ?thesis
        by (simp add: await_def ok List.map_filter_simps Cons.IH)
    next
      case False
      show ?thesis
      proof (cases "refresh_tokens (redis w) t")
        case None
        with Some p False have "session_of (redis w) family = None"
          by (simp add: session_of_def)
        with Some p False None ok_w show ?thesis
          by (simp add: await_def ok List.map_filter_simps Cons.IH)
      next
        case (Some q)
        obtain d ttl' where q: "q = (d, ttl')" by (cases q)
        from \<open>token_families (redis w) family = Some p\<close> p False Some q
        have "session_of (redis w) family =
            Some \<lparr>tokenFamily = family, createdAt = createdAt d, lastUsedAt = lastUsedAt d,
                  userAgent = userAgent d, ipAddress = ipAddress d\<rparr>"
          by (simp add: session_of_def)
        with \<open>token_families (redis w) family = Some p\<close> p False Some q ok_w show ?thesis
          by (simp add: await_def ok List.map_filter_simps Cons.IH)
      qed
    qed
  qed
qed

lemma set_map_filter: "set (List.map_filter f xs) = {y. \<exists>x \<in> set xs. f x = Some y}"
  by (induction xs) (auto split: option.splits)

lemma session_of_Some:
  "session_of s family = Some x \<longleftrightarrow>
     (\<exists>t ttl d ttl'. token_families s family = Some (t, ttl) \<and> t \<noteq> []
        \<and> refresh_tokens s t = Some (d, ttl')
        \<and> x = \<lparr>tokenFamily = family, createdAt = createdAt d, lastUsedAt = lastUsedAt d,
                userAgent = userAgent d, ipAddress = ipAddress d\<rparr>)"
  by (auto simp add: session_of_def split: option.splits)

lemma getUserSessions_ok:
  "faults w = [] \<Longrightarrow>
   getUserSessions uid w =
     (Inr (sort_key (\<lambda>s. - lastUsedAt s)
             (List.map_filter (session_of (redis w)) (members (user_sessions (redis w)) uid))),
      w\<lparr>trace := trace w @ [Done CONNECT, Done (SMEMBERS (USER_SESSIONS uid))]
                @ lookups (redis w) (members (user_sessions (redis w)) uid)\<rparr>)"
  by (simp add: getUserSessions_def await_def ok collect_sessions_ok resolve_def)

text \<open>
  C8. Against a store that answers, \<^verbatim>\<open>getUserSessions\<close> returns normally for every
  user id. Its result is ordered by \<^verbatim>\<open>lastUsedAt\<close>, larger first, and holds exactly the
  sessions of the members of the user's session set whose pointer is there and points to
  a record that is there: a member whose pointer or record is missing is skipped and
  raises nothing. The store is only read.
\<close>

theorem getUserSessions_sorted:
  assumes "faults w = []" and "getUserSessions uid w = (result, w')"
  shows "\<exists>sessions. result = Inr sessions
    \<and> sorted_wrt (\<lambda>a b. lastUsedAt b \<le> lastUsedAt a) sessions
    \<and> (\<forall>x. x \<in> set sessions \<longleftrightarrow>
          (\<exists>family t ttl d ttl'.
             family \<in> set (members (user_sessions (redis w)) uid)
             \<and> token_families (redis w) family = Some (t, ttl) \<and> t \<noteq> []
             \<and> refresh_tokens (redis w) t = Some (d, ttl')
             \<and> x = \<lparr>tokenFamily = family, createdAt = createdAt d, lastUsedAt = lastUsedAt d,
                     userAgent = userAgent d, ipAddress = ipAddress d\<rparr>))
    \<and> redis w' = redis w"
proof -
  let ?found = "List.map_filter (session_of (redis w)) (members (user_sessions (redis w)) uid)"
  let ?sessions = "sort_key (\<lambda>s. - lastUsedAt s) ?found"
  have res: "result = Inr ?sessions" and st: "redis w' = redis w"
    using assms by (auto simp add: getUserSessions_ok)
  have "sorted (map (\<lambda>s. - lastUsedAt s) ?sessions)"
    by (rule sorted_sort_key)
  then have srt: "sorted_wrt (\<lambda>a b. lastUsedAt b \<le> lastUsedAt a) ?sessions"
    by (simp add: sorted_map)
  have mem: "x \<in> set ?sessions \<longleftrightarrow>
          (\<exists>family t ttl d ttl'.
             family \<in> set (members (user_sessions (redis w)) uid)
             \<and> token_families (redis w) family = Some (t, ttl) \<and> t \<noteq> []
             \<and> refresh_tokens (redis w) t = Some (d, ttl')
             \<and> x = \<lparr>tokenFamily = family, createdAt = createdAt d, lastUsedAt = lastUsedAt d,
                     userAgent = userAgent d, ipAddress = ipAddress d\<rparr>)" for x
    by (simp add: set_map_filter session_of_Some) blast
  from res srt mem st show ?thesis by blast
qed

theorem getUserSessions_sorted_witness:
  "faults (world_of two_device_store) = []
   \<and> fst (getUserSessions ''u1'' (world_of two_device_store)) =
       Inr [\<lparr>tokenFamily = ''f2'', createdAt = 1500, lastUsedAt = 3000,
              userAgent = Some ''phone'', ipAddress = None\<rparr>,
            \<lparr>tokenFamily = ''f1'', createdAt = 1000, lastUsedAt = 2000,
              userAgent = None, ipAddress = None\<rparr>]
   \<and> redis (snd (getUserSessions ''u1'' (world_of two_device_store))) = two_device_store"
proof -
  have h: "faults (world_of two_device_store) = []"
    by (simp add: world_of_def)
  have r: "redis (world_of two_device_store) = two_device_store"
    by (simp add: world_of_def)
  have m: "members (user_sessions two_device_store) ''u1'' = [''f1'', ''f2'', ''f3'', ''f4'']"
    by (simp add: two_device_store_def members_def)
  have s: "session_of two_device_store ''f1'' = Some \<lparr>tokenFamily = ''f1'', createdAt = 1000, lastUsedAt = 2000,
              userAgent = None, ipAddress = None\<rparr>"
     "session_of two_device_store ''f2'' = Some \<lparr>tokenFamily = ''f2'', createdAt = 1500, lastUsedAt = 3000,
              userAgent = Some ''phone'', ipAddress = None\<rparr>"
     "session_of two_device_store ''f3'' = None"
     "session_of two_device_store ''f4'' = None"
    by (simp_all add: session_of_def two_device_store_def demo_record_def second_record_def)
  have v: "fst (getUserSessions ''u1'' (world_of two_device_store)) =
       Inr [\<lparr>tokenFamily = ''f2'', createdAt = 1500, lastUsedAt = 3000,
              userAgent = Some ''phone'', ipAddress = None\<rparr>,
            \<lparr>tokenFamily = ''f1'', createdAt = 1000, lastUsedAt = 2000,
              userAgent = None, ipAddress = None\<rparr>]"
    by (simp add: getUserSessions_ok [OF h] r m s)
  from getUserSessions_sorted [OF h surjective_pairing] h v r show ?thesis
    by auto
qed

section \<open>Rotating\<close>

lemma verify_Inr:
  "jwt_verify jwt token sec (now w) = Inr d \<Longrightarrow> verify jwt token sec w = (Inr d, w)"
  by (simp add: verify_def)

lemma verify_Inl:
  "jwt_verify jwt token sec (now w) = Inl e \<Longrightarrow> verify jwt token sec w = (Inl (Jwt e), w)"
  by (simp add: verify_def)

lemma rotation_verify_fails:
  assumes "faults w = []"
    and "jwt_verify jwt old (refreshSecret config) (now w) = Inl e"
  shows "refreshTokenRotation jwt config old ua ip w =
    (Inl (Jwt e),
     if e = TokenExpiredError
     then w\<lparr>redis := (redis w)\<lparr>refresh_tokens := (refresh_tokens (redis w))(old := None)\<rparr>,
            trace := trace w @ [Done CONNECT, Done (DEL (REFRESH_TOKEN old))]\<rparr>
     else w\<lparr>trace := trace w @ [Done CONNECT]\<rparr>)"
  using assms
  by (simp add: refreshTokenRotation_def await_def try_catch_def ok verify_def throw_def resolve_def)

lemma rotation_wrong_type:
  assumes "faults w = []"
    and "jwt_verify jwt old (refreshSecret config) (now w) = Inr decoded"
    and "type' decoded \<noteq> Some ''refresh''"
  shows "refreshTokenRotation jwt config old ua ip w =
    (Inl (Error ''Invalid token type''), w\<lparr>trace := trace w @ [Done CONNECT]\<rparr>)"
  using assms
  by (simp add: refreshTokenRotation_def await_def try_catch_def ok verify_def throw_def resolve_def)

lemma rotation_breach:
  assumes "faults w = []"
    and "jwt_verify jwt old (refreshSecret config) (now w) = Inr decoded"
    and "type' decoded = Some ''refresh''"
    and "refresh_tokens (redis w) old = None"
  shows "refreshTokenRotation jwt config old ua ip w =
    (Inl (Error ''Refresh token not found - possible security breach''),
     snd (revokeTokenFamily (tokenFamily' decoded)
            (w\<lparr>trace := trace w @ [Done CONNECT, Done (GET (REFRESH_TOKEN old))]\<rparr>)))"
proof -
  let ?v = "w\<lparr>trace := trace w @ [Done CONNECT, Done (GET (REFRESH_TOKEN old))]\<rparr>"
  have v: "faults ?v = []" using assms(1) by simp
  obtain v' where rv: "revokeTokenFamily (tokenFamily' decoded) ?v = (Inr (), v')"
    using revokeTokenFamily_faults [OF v, of "tokenFamily' decoded"]
    by (cases "revokeTokenFamily (tokenFamily' decoded) ?v") auto
  show ?thesis
    using assms rv
    by (simp add: refreshTokenRotation_def await_def try_catch_def ok verify_def throw_def resolve_def)
qed

lemma rotation_success:
  assumes "faults w = []"
    and "jwt_verify jwt old (refreshSecret config) (now w) = Inr decoded"
    and "type' decoded = Some ''refresh''"
    and "refresh_tokens (redis w) old = Some (tokenData, ttl0)"
  shows "refreshTokenRotation jwt config old ua ip w =
    (let payload = \<lparr>id' = id' decoded, email = email decoded, role = role decoded,
                     tokenFamily' = tokenFamily' decoded\<rparr>;
         a = jwt_sign jwt payload None (secret config) (expiresIn config) (now w);
         r = jwt_sign jwt payload (Some ''refresh'') (refreshSecret config)
               (refreshExpiresIn config) (now w);
         d = tokenData\<lparr>lastUsedAt := now w,
                        userAgent := or_else ua (userAgent tokenData),
                        ipAddress := or_else ip (ipAddress tokenData)\<rparr>
     in (Inr \<lparr>accessToken = a, refreshToken = r\<rparr>,
         w\<lparr>redis := (redis w)
              \<lparr>refresh_tokens := ((refresh_tokens (redis w))(old := None))(r \<mapsto> (d, 604800)),
               token_families := (token_families (redis w))
                  (template (tokenFamily' decoded) \<mapsto> (r, 604800))\<rparr>,
            trace := trace w @
              [Done CONNECT, Done (GET (REFRESH_TOKEN old)), Done (DEL (REFRESH_TOKEN old)),
               Signed a, Signed r,
               Done (SETEX (REFRESH_TOKEN r) 604800 (Json d)),
               Done (SETEX (TOKEN_FAMILY (template (tokenFamily' decoded))) 604800 (Str r))]\<rparr>))"
  using assms
  by (simp add: refreshTokenRotation_def await_def try_catch_def ok verify_def throw_def resolve_def
      Let_def sign_def Date_now_def seven_days_def)

lemma revokeTokenFamily_redis:
  assumes "faults w = []" and "faults v = []" and "redis v = redis w"
  shows "redis (snd (revokeTokenFamily fam v)) = redis (snd (revokeTokenFamily fam w))"
proof (cases "truthy fam")
  case False
  with assms show ?thesis by (simp add: revokeTokenFamily_skip)
next
  case True
  then obtain f where "fam = Some f" and "f \<noteq> []"
    by (cases fam) auto
  with assms show ?thesis
    by (simp add: revokeTokenFamily_ok split: option.splits)
qed

lemma revokeTokenFamily_removes:
  assumes "faults w = []" and "f \<noteq> []"
  shows "f \<notin> set (members (user_sessions (redis (snd (revokeTokenFamily (Some f) w)))) uid)"
  using assms by (simp add: revokeTokenFamily_ok members_after_sweep)

lemma getUserSessions_families:
  assumes "faults w = []"
  shows "\<exists>sessions. fst (getUserSessions uid w) = Inr sessions
     \<and> tokenFamily ` set sessions \<subseteq> set (members (user_sessions (redis w)) uid)"
  using assms
  by (auto simp add: getUserSessions_ok set_map_filter session_of_Some)

subsection \<open>What enters a session set\<close>

text \<open>
  Whatever the world and the failures of the store, an operation leaves in every session
  set only members that were there and, for \<^verbatim>\<open>generateTokenPair\<close>, the identifier drawn
  by \<^verbatim>\<open>uuidv4()\<close>: the only \<^verbatim>\<open>sAdd\<close> of the service is the one at line 82. So a store
  that starts empty holds family identifiers only, after any number of operations.
\<close>

lemma adds_only_resolve [intro!]: "adds_only X (resolve a)"
  by (simp add: adds_only_def resolve_def)

lemma adds_only_throw [intro!]: "adds_only X (throw e)"
  by (simp add: adds_only_def throw_def)

lemma adds_only_await [intro!]:
  assumes m: "adds_only X m" and f: "\<And>a. adds_only X (f a)"
  shows "adds_only X (await m f)"
  unfolding adds_only_def
proof (intro allI)
  fix w u
  obtain r w1 where mw: "m w = (r, w1)" by (cases "m w")
  from m mw have 1: "set (members (user_sessions (redis w1)) u)
      \<subseteq> set (members (user_sessions (redis w)) u) \<union> X"
    unfolding adds_only_def by (metis snd_conv)
  show "set (members (user_sessions (redis (snd (await m f w)))) u)
      \<subseteq> set (members (user_sessions (redis w)) u) \<union> X"
  proof (cases r)
    case (Inl e)
    with mw 1 show ?thesis by (simp add: await_def)
  next
    case (Inr a)
    from f [of a] have "set (members (user_sessions (redis (snd (f a w1)))) u)
        \<subseteq> set (members (user_sessions (redis w1)) u) \<union> X"
      unfolding adds_only_def by blast
    with 1 Inr mw show ?thesis
      by (auto simp add: await_def)
  qed
qed

lemma adds_only_try_catch [intro!]:
  assumes m: "adds_only X m" and h: "\<And>e. adds_only X (h e)"
  shows "adds_only X (try_catch m h)"
  unfolding adds_only_def
proof (intro allI)
  fix w u
  obtain r w1 where mw: "m w = (r, w1)" by (cases "m w")
  from m mw have 1: "set (members (user_sessions (redis w1)) u)
      \<subseteq> set (members (user_sessions (redis w)) u) \<union> X"
    unfolding adds_only_def by (metis snd_conv)
  show "set (members (user_sessions (redis (snd (try_catch m h w)))) u)
      \<subseteq> set (members (user_sessions (redis w)) u) \<union> X"
  proof (cases r)
    case (Inr a)
    with mw 1 show ?thesis by (simp add: try_catch_def)
  next
    case (Inl e)
    from h [of e] have "set (members (user_sessions (redis (snd (h e w1)))) u)
        \<subseteq> set (members (user_sessions (redis w1)) u) \<union> X"
      unfolding adds_only_def by blast
    with 1 Inl mw show ?thesis
      by (auto simp add: try_catch_def)
  qed
qed

lemma adds_only_for_of [intro!]:
  assumes "\<And>x. adds_only X (body x)"
  shows "adds_only X (for_of xs body)"
  using assms by (induction xs) auto

lemma adds_only_if [intro!]:
  "adds_only X m \<Longrightarrow> adds_only X n \<Longrightarrow> adds_only X (if b then m else n)"
  by simp

lemma adds_only_command:
  assumes "\<And>s u. set (members (user_sessions (snd (f s))) u)
             \<subseteq> set (members (user_sessions s) u) \<union> X"
  shows "adds_only X (command c f)"
  unfolding adds_only_def
proof (intro allI)
  fix w u
  have "redis (snd (command c f w)) = redis w \<or> redis (snd (command c f w)) = snd (f (redis w))"
    by (cases "f (redis w)") (auto simp add: command_def split: list.splits)
  with assms [of "redis w" u]
  show "set (members (user_sessions (redis (snd (command c f w)))) u)
      \<subseteq> set (members (user_sessions (redis w)) u) \<union> X"
    by auto
qed

lemma members_delete:
  "members (AList.delete u al) u' = (if u' = u then [] else members al u')"
  by (simp add: members_def delete_conv')

lemma adds_only_setEx_or_refuse:
  assumes "\<And>s. user_sessions (f s) = user_sessions s"
  shows "adds_only X (setEx_or_refuse k ttl v f)"
  unfolding setEx_or_refuse_def
  by (auto intro!: adds_only_command simp add: assms)

lemma adds_only_primitives [intro!]:
  "adds_only X getRedisClient"
  "adds_only X (redis_get_refresh_token t)"
  "adds_only X (redis_setEx_refresh_token t ttl d)"
  "adds_only X (redis_del_refresh_token t)"
  "adds_only X (redis_get_token_family f)"
  "adds_only X (redis_setEx_token_family f ttl t)"
  "adds_only X (redis_del_token_family f)"
  "adds_only X (redis_exists_token_family f)"
  "adds_only X (redis_setEx_blacklist t ttl v)"
  "adds_only X (redis_get_blacklist t)"
  "adds_only X (redis_sRem_user_sessions u x)"
  "adds_only X (redis_sMembers_user_sessions u)"
  "adds_only X (redis_del_user_sessions u)"
  "adds_only X redis_keys_user_sessions"
  unfolding getRedisClient_def redis_get_refresh_token_def redis_setEx_refresh_token_def
    redis_del_refresh_token_def redis_get_token_family_def redis_setEx_token_family_def
    redis_del_token_family_def redis_exists_token_family_def redis_setEx_blacklist_def
    redis_get_blacklist_def redis_sRem_user_sessions_def
    redis_sMembers_user_sessions_def redis_del_user_sessions_def redis_keys_user_sessions_def
  by (auto intro!: adds_only_command adds_only_setEx_or_refuse
      simp add: members_remove_member members_delete split: if_splits)

lemma adds_only_sAdd [intro!]: "x \<in> X \<Longrightarrow> adds_only X (redis_sAdd_user_sessions u x)"
  unfolding redis_sAdd_user_sessions_def
  by (auto intro!: adds_only_command simp add: members_add_member split: if_splits)

lemma adds_only_verify [intro!]: "adds_only X (verify jwt token sec)"
  by (auto simp add: adds_only_def verify_def split: sum.splits)

lemma adds_only_sign [intro!]: "adds_only X (sign jwt payload ty sec expires)"
  by (simp add: adds_only_def sign_def)

lemma adds_only_Date_now [intro!]: "adds_only X Date_now"
  by (simp add: adds_only_def Date_now_def)

lemma adds_only_revokeTokenFamily [intro!]: "adds_only X (revokeTokenFamily fam)"
  unfolding revokeTokenFamily_def by auto

lemma adds_only_generateTokenPair:
  "adds_only {uuid} (generateTokenPair jwt config uuid user ua ip)"
  unfolding generateTokenPair_def Let_def by auto

lemma adds_only_refreshTokenRotation:
  "adds_only {} (refreshTokenRotation jwt config old ua ip)"
  unfolding refreshTokenRotation_def Let_def by (auto split: option.splits)

lemma adds_only_blacklistAccessToken: "adds_only {} (blacklistAccessToken jwt config token)"
  unfolding blacklistAccessToken_def Let_def by (auto split: option.splits)

lemma adds_only_isTokenBlacklisted: "adds_only {} (isTokenBlacklisted token)"
  unfolding isTokenBlacklisted_def by auto

lemma adds_only_revokeAllUserTokens: "adds_only {} (revokeAllUserTokens uid)"
  unfolding revokeAllUserTokens_def by auto

lemma adds_only_collect_sessions [intro!]: "adds_only X (collect_sessions fams acc)"
  by (induction fams arbitrary: acc) (auto split: option.splits)

lemma adds_only_getUserSessions: "adds_only {} (getUserSessions uid)"
  unfolding getUserSessions_def by auto

lemma adds_only_cleanupExpiredTokens: "adds_only {} cleanupExpiredTokens"
  unfolding cleanupExpiredTokens_def by auto

lemma family_ids_only_kept:
  assumes "adds_only X m" and "family_ids_only (redis w)"
    and "'''' \<notin> X" and "''undefined'' \<notin> X"
  shows "family_ids_only (redis (snd (m w)))"
  using assms unfolding adds_only_def family_ids_only_def by blast

lemma family_ids_only_empty_store: "family_ids_only empty_store"
  by (simp add: family_ids_only_def empty_store_def)

lemma template_falsy: "\<not> truthy fam \<Longrightarrow> template fam = '''' \<or> template fam = ''undefined''"
  by (cases fam) auto

lemma family_ids_only_demo_store: "family_ids_only demo_store"
  by (auto simp add: family_ids_only_def demo_store_def members_def)

subsection \<open>Replay, rotation and rejection\<close>

text \<open>
  C1. A refresh token that verifies, carries \<^verbatim>\<open>type\<close> \<^verbatim>\<open>'refresh'\<close> and has no record
  in the store is taken for a replay: against a store that answers, the rotation calls
  \<^verbatim>\<open>revokeTokenFamily\<close> on the \<^verbatim>\<open>tokenFamily\<close> claim (the store it leaves is the store
  that call leaves) and throws \<^verbatim>\<open>Error('Refresh token not found - possible security
  breach')\<close>, the error the spec calls SecurityBreach. The session sets of the service
  hold family identifiers only: by the lemmas above no operation adds anything but an
  identifier drawn by \<^verbatim>\<open>uuidv4()\<close>, which is neither the empty string nor the word
  \<^verbatim>\<open>undefined\<close>. On such a store the family of the token (as the code writes it into a
  key) is afterwards a member of no session set, and \<^verbatim>\<open>getUserSessions\<close> lists it for
  no user; this holds for every token, also one whose claim is missing or empty.
\<close>

theorem rotation_reuse_revokes:
  assumes "faults w = []"
    and "family_ids_only (redis w)"
    and "jwt_verify jwt old (refreshSecret config) (now w) = Inr decoded"
    and "type' decoded = Some ''refresh''"
    and "refresh_tokens (redis w) old = None"
    and "refreshTokenRotation jwt config old ua ip w = (result, w')"
  shows "result = Inl (Error ''Refresh token not found - possible security breach'')
    \<and> redis w' = redis (snd (revokeTokenFamily (tokenFamily' decoded) w))
    \<and> (\<forall>uid. template (tokenFamily' decoded) \<notin> set (members (user_sessions (redis w')) uid))
    \<and> (\<forall>uid. \<exists>sessions. fst (getUserSessions uid w') = Inr sessions
           \<and> template (tokenFamily' decoded) \<notin> tokenFamily ` set sessions)"
proof -
  let ?v = "w\<lparr>trace := trace w @ [Done CONNECT, Done (GET (REFRESH_TOKEN old))]\<rparr>"
  have v: "faults ?v = []" and rv: "redis ?v = redis w"
    using assms(1) by simp_all
  have w': "w' = snd (revokeTokenFamily (tokenFamily' decoded) ?v)"
    and res: "result = Inl (Error ''Refresh token not found - possible security breach'')"
    using assms(6) unfolding rotation_breach [OF assms(1,3,4,5)] by simp_all
  have st: "redis w' = redis (snd (revokeTokenFamily (tokenFamily' decoded) w))"
    unfolding w' by (rule revokeTokenFamily_redis [OF assms(1) v rv])
  have fw': "faults w' = []"
    unfolding w' using revokeTokenFamily_faults [OF v] by simp
  have gone: "template (tokenFamily' decoded) \<notin> set (members (user_sessions (redis w')) uid)"
    for uid
  proof (cases "truthy (tokenFamily' decoded)")
    case True
    then obtain f where f: "tokenFamily' decoded = Some f" "f \<noteq> []"
      by (cases "tokenFamily' decoded") auto
    then show ?thesis
      unfolding w' using revokeTokenFamily_removes [OF v, of f uid] by simp
  next
    case False
    then have "redis w' = redis w"
      unfolding st by (simp add: revokeTokenFamily_skip)
    with template_falsy [OF False] assms(2) show ?thesis
      unfolding family_ids_only_def by auto
  qed
  have listed: "\<exists>sessions. fst (getUserSessions uid w') = Inr sessions
                \<and> template (tokenFamily' decoded) \<notin> tokenFamily ` set sessions" for uid
    using getUserSessions_families [OF fw', of uid] gone [of uid] by blast
  from res st gone listed show ?thesis by blast
qed

theorem rotation_reuse_revokes_witness:
  "faults (world_of demo_store) = []
   \<and> family_ids_only (redis (world_of demo_store))
   \<and> jwt_verify demo_jwt ''O'' (refreshSecret demo_config) (now (world_of demo_store))
       = Inr (demo_decoded (Some ''f1'') (Some ''refresh'') 8000)
   \<and> type' (demo_decoded (Some ''f1'') (Some ''refresh'') 8000) = Some ''refresh''
   \<and> refresh_tokens (redis (world_of demo_store)) ''O'' = None
   \<and> members (user_sessions (redis (world_of demo_store))) ''u1'' = [''f1'']
   \<and> fst (refreshTokenRotation demo_jwt demo_config ''O'' None None (world_of demo_store))
       = Inl (Error ''Refresh token not found - possible security breach'')
   \<and> ''f1'' \<notin> set (members (user_sessions (redis (snd
         (refreshTokenRotation demo_jwt demo_config ''O'' None None (world_of demo_store))))) ''u1'')
   \<and> redis (snd (refreshTokenRotation demo_jwt demo_config ''O'' None None
         (world_of demo_store))) = empty_store"
proof -
  have h1: "faults (world_of demo_store) = []"
    and r: "redis (world_of demo_store) = demo_store"
    by (simp_all add: world_of_def)
  have h0: "family_ids_only (redis (world_of demo_store))"
    unfolding r by (rule family_ids_only_demo_store)
  have h2: "jwt_verify demo_jwt ''O'' (refreshSecret demo_config) (now (world_of demo_store))
       = Inr (demo_decoded (Some ''f1'') (Some ''refresh'') 8000)"
    by (simp add: demo_jwt_def demo_config_def)
  have h3: "type' (demo_decoded (Some ''f1'') (Some ''refresh'') 8000) = Some ''refresh''"
    and h6: "template (tokenFamily' (demo_decoded (Some ''f1'') (Some ''refresh'') 8000)) = ''f1''"
    and h8: "tokenFamily' (demo_decoded (Some ''f1'') (Some ''refresh'') 8000) = Some ''f1''"
    by (simp_all add: demo_decoded_def)
  have h4: "refresh_tokens (redis (world_of demo_store)) ''O'' = None"
    by (simp add: world_of_def demo_store_def)
  have h7: "members (user_sessions (redis (world_of demo_store))) ''u1'' = [''f1'']"
    by (simp add: world_of_def demo_store_def members_def)
  have first: "redis (snd (revokeTokenFamily (Some ''f1'') (world_of demo_store))) = empty_store"
    unfolding revokeTokenFamily_ok [OF h1, of "''f1''", simplified]
    by (simp add: world_of_def demo_store_def empty_store_def remove_member_def members_def)
  note run = rotation_reuse_revokes [OF h1 h0 h2 h3 h4 surjective_pairing, of None None]
  from run have a:
    "fst (refreshTokenRotation demo_jwt demo_config ''O'' None None (world_of demo_store))
       = Inl (Error ''Refresh token not found - possible security breach'')"
    by (rule conjunct1)
  from run have
    "\<forall>uid. template (tokenFamily' (demo_decoded (Some ''f1'') (Some ''refresh'') 8000))
       \<notin> set (members (user_sessions (redis (snd
         (refreshTokenRotation demo_jwt demo_config ''O'' None None (world_of demo_store))))) uid)"
    by blast
  then have b: "''f1'' \<notin> set (members (user_sessions (redis (snd
         (refreshTokenRotation demo_jwt demo_config ''O'' None None (world_of demo_store))))) ''u1'')"
    unfolding h6 by (rule spec)
  from run have "redis (snd (refreshTokenRotation demo_jwt demo_config ''O'' None None
         (world_of demo_store)))
      = redis (snd (revokeTokenFamily (tokenFamily'
          (demo_decoded (Some ''f1'') (Some ''refresh'') 8000)) (world_of demo_store)))"
    by blast
  then have c: "redis (snd (refreshTokenRotation demo_jwt demo_config ''O'' None None
         (world_of demo_store))) = empty_store"
    unfolding h8 first .
  from a b c h0 h1 h2 h3 h4 h7 show ?thesis by blast
qed

text \<open>
  The condition on the session sets is used only for a token whose claim is missing or
  empty, where \<^verbatim>\<open>revokeTokenFamily\<close> returns at its first line. On a store built by hand,
  in which the empty string is a member of a session set (the service never adds it), the
  rotation of the token \<open>''Z''\<close>, whose \<^verbatim>\<open>tokenFamily\<close> is the empty string, leaves that
  member where it was.
\<close>

lemma rotation_on_hand_built_store:
  "jwt_verify demo_jwt ''Z'' (refreshSecret demo_config) (now (world_of blank_family_store))
       = Inr (demo_decoded (Some '''') (Some ''refresh'') 9000)
   \<and> refresh_tokens (redis (world_of blank_family_store)) ''Z'' = None
   \<and> fst (refreshTokenRotation demo_jwt demo_config ''Z'' None None (world_of blank_family_store))
       = Inl (Error ''Refresh token not found - possible security breach'')
   \<and> '''' \<in> set (members (user_sessions (redis (snd
         (refreshTokenRotation demo_jwt demo_config ''Z'' None None
            (world_of blank_family_store))))) ''u1'')
   \<and> fst (getUserSessions ''u1'' (snd
         (refreshTokenRotation demo_jwt demo_config ''Z'' None None (world_of blank_family_store))))
       = Inr [\<lparr>tokenFamily = '''', createdAt = 1000, lastUsedAt = 2000, userAgent = None,
                ipAddress = None\<rparr>]"
proof -
  have h1: "faults (world_of blank_family_store) = []"
    by (simp add: world_of_def)
  have h2: "jwt_verify demo_jwt ''Z'' (refreshSecret demo_config) (now (world_of blank_family_store))
       = Inr (demo_decoded (Some '''') (Some ''refresh'') 9000)"
    by (simp add: demo_jwt_def demo_config_def)
  have h3: "type' (demo_decoded (Some '''') (Some ''refresh'') 9000) = Some ''refresh''"
    and h5: "\<not> truthy (tokenFamily' (demo_decoded (Some '''') (Some ''refresh'') 9000))"
    by (simp_all add: demo_decoded_def)
  have h4: "refresh_tokens (redis (world_of blank_family_store)) ''Z'' = None"
    by (simp add: world_of_def blank_family_store_def)
  let ?w' = "snd (refreshTokenRotation demo_jwt demo_config ''Z'' None None
                (world_of blank_family_store))"
  have run: "refreshTokenRotation demo_jwt demo_config ''Z'' None None (world_of blank_family_store)
     = (Inl (Error ''Refresh token not found - possible security breach''),
        (world_of blank_family_store)\<lparr>trace := trace (world_of blank_family_store) @ [Done CONNECT, Done (GET (REFRESH_TOKEN ''Z''))]\<rparr>)"
    unfolding rotation_breach [OF h1 h2 h3 h4] revokeTokenFamily_skip [OF h5] by simp
  have st: "redis ?w' = blank_family_store" and fl: "faults ?w' = []"
    unfolding run by (simp_all add: world_of_def)
  have m: "members (user_sessions blank_family_store) ''u1'' = ['''']"
    by (simp add: blank_family_store_def members_def)
  have s: "session_of blank_family_store '''' =
      Some \<lparr>tokenFamily = '''', createdAt = 1000, lastUsedAt = 2000, userAgent = None,
                ipAddress = None\<rparr>"
    by (simp add: session_of_def blank_family_store_def demo_record_def)
  have l: "fst (getUserSessions ''u1'' ?w') = Inr [\<lparr>tokenFamily = '''', createdAt = 1000, lastUsedAt = 2000, userAgent = None,
                ipAddress = None\<rparr>]"
    by (simp add: getUserSessions_ok [OF fl] st m s)
  from h2 h4 run st m l show ?thesis by simp
qed

lemma blank_family_store_not_ids: "\<not> family_ids_only blank_family_store"
proof -
  have "'''' \<in> set (members (user_sessions blank_family_store) ''u1'')"
    by (simp add: blank_family_store_def members_def)
  then show ?thesis
    unfolding family_ids_only_def by blast
qed

text \<open>
  C2. A rotation that succeeds (the token verifies with \<^verbatim>\<open>type\<close> \<^verbatim>\<open>'refresh'\<close>, its
  record is in the store, the store answers) does, in this order: read the old record,
  delete it, sign the new access token and the new refresh token, write the new record,
  write the pointer. The two new tokens are signed over the claims of the presented token,
  so with a signer that keeps the claims they decode to its \<^verbatim>\<open>tokenFamily\<close>. The new
  record is the old one with \<^verbatim>\<open>lastUsedAt\<close> set to the current time; \<^verbatim>\<open>userAgent\<close> and
  \<^verbatim>\<open>ipAddress\<close> are replaced only by a value that was supplied (and is not empty),
  \<^verbatim>\<open>createdAt\<close> is kept. The pointer of the family leads to the new refresh token, and
  the old record is gone (unless the signer returned the old token string again).
\<close>

theorem rotation_rotates:
  assumes "faults w = []"
    and "jwt_verify jwt old (refreshSecret config) (now w) = Inr decoded"
    and "type' decoded = Some ''refresh''"
    and "refresh_tokens (redis w) old = Some (tokenData, ttl0)"
    and "refreshTokenRotation jwt config old ua ip w = (result, w')"
  shows "\<exists>out newData payload. result = Inr out
    \<and> trace w' = trace w @
         [Done CONNECT, Done (GET (REFRESH_TOKEN old)), Done (DEL (REFRESH_TOKEN old)),
          Signed (accessToken out), Signed (refreshToken out),
          Done (SETEX (REFRESH_TOKEN (refreshToken out)) (7 * 24 * 60 * 60) (Json newData)),
          Done (SETEX (TOKEN_FAMILY (template (tokenFamily' decoded))) (7 * 24 * 60 * 60)
                  (Str (refreshToken out)))]
    \<and> tokenFamily' payload = tokenFamily' decoded
    \<and> accessToken out = jwt_sign jwt payload None (secret config) (expiresIn config) (now w)
    \<and> refreshToken out = jwt_sign jwt payload (Some ''refresh'') (refreshSecret config)
         (refreshExpiresIn config) (now w)
    \<and> (claims_round_trip jwt \<longrightarrow>
         (\<forall>t c. jwt_verify jwt (accessToken out) (secret config) t = Inr c
               \<longrightarrow> tokenFamily' c = tokenFamily' decoded)
         \<and> (\<forall>t c. jwt_verify jwt (refreshToken out) (refreshSecret config) t = Inr c
               \<longrightarrow> tokenFamily' c = tokenFamily' decoded))
    \<and> refresh_tokens (redis w') (refreshToken out) = Some (newData, 7 * 24 * 60 * 60)
    \<and> (refreshToken out \<noteq> old \<longrightarrow> refresh_tokens (redis w') old = None)
    \<and> createdAt newData = createdAt tokenData
    \<and> lastUsedAt newData = now w
    \<and> userAgent newData = (if truthy ua then ua else userAgent tokenData)
    \<and> ipAddress newData = (if truthy ip then ip else ipAddress tokenData)
    \<and> tokenFamily newData = tokenFamily tokenData
    \<and> userId newData = userId tokenData
    \<and> token_families (redis w') (template (tokenFamily' decoded))
        = Some (refreshToken out, 7 * 24 * 60 * 60)"
proof -
  let ?payload = "\<lparr>id' = id' decoded, email = email decoded, role = role decoded,
                    tokenFamily' = tokenFamily' decoded\<rparr>"
  have fam: "tokenFamily' c = tokenFamily' decoded"
    if "claims_round_trip jwt"
      and "jwt_verify jwt (jwt_sign jwt ?payload ty sec expires (now w)) sec t = Inr c"
    for ty sec expires t c
    using round_trip_family [OF that] by simp
  let ?a = "jwt_sign jwt ?payload None (secret config) (expiresIn config) (now w)"
  let ?r = "jwt_sign jwt ?payload (Some ''refresh'') (refreshSecret config)
              (refreshExpiresIn config) (now w)"
  let ?d = "tokenData\<lparr>lastUsedAt := now w,
                        userAgent := or_else ua (userAgent tokenData),
                        ipAddress := or_else ip (ipAddress tokenData)\<rparr>"
  let ?out = "\<lparr>accessToken = ?a, refreshToken = ?r\<rparr>"
  from assms(5) have res: "result = Inr ?out"
    and w': "w' = w\<lparr>redis := (redis w)
              \<lparr>refresh_tokens := ((refresh_tokens (redis w))(old := None))(?r \<mapsto> (?d, 604800)),
               token_families := (token_families (redis w))
                  (template (tokenFamily' decoded) \<mapsto> (?r, 604800))\<rparr>,
            trace := trace w @
              [Done CONNECT, Done (GET (REFRESH_TOKEN old)), Done (DEL (REFRESH_TOKEN old)),
               Signed ?a, Signed ?r,
               Done (SETEX (REFRESH_TOKEN ?r) 604800 (Json ?d)),
               Done (SETEX (TOKEN_FAMILY (template (tokenFamily' decoded))) 604800 (Str ?r))]\<rparr>"
    unfolding rotation_success [OF assms(1-4)] Let_def by simp_all
  show ?thesis
    apply (rule exI [of _ ?out])
    apply (rule exI [of _ ?d])
    apply (rule exI [of _ ?payload])
    unfolding res w'
    apply (simp add: or_else_def)
    apply (blast intro: fam)
    done
qed

theorem rotation_rotates_witness:
  "faults (world_of older_store) = [] \<and> claims_round_trip demo_jwt
   \<and> jwt_verify demo_jwt ''O'' (refreshSecret demo_config) (now (world_of older_store))
       = Inr (demo_decoded (Some ''f1'') (Some ''refresh'') 8000)
   \<and> type' (demo_decoded (Some ''f1'') (Some ''refresh'') 8000) = Some ''refresh''
   \<and> refresh_tokens (redis (world_of older_store)) ''O'' = Some (demo_record, 600000)
   \<and> fst (refreshTokenRotation demo_jwt demo_config ''O'' (Some ''tablet'') None
             (world_of older_store))
       = Inr \<lparr>accessToken = ''A'', refreshToken = ''R''\<rparr>
   \<and> refresh_tokens (redis (snd (refreshTokenRotation demo_jwt demo_config ''O''
         (Some ''tablet'') None (world_of older_store)))) ''O'' = None
   \<and> token_families (redis (snd (refreshTokenRotation demo_jwt demo_config ''O''
         (Some ''tablet'') None (world_of older_store)))) ''f1'' = Some (''R'', 604800)"
proof -
  have h1: "faults (world_of older_store) = []"
    by (simp add: world_of_def)
  have h3: "jwt_verify demo_jwt ''O'' (refreshSecret demo_config) (now (world_of older_store))
       = Inr (demo_decoded (Some ''f1'') (Some ''refresh'') 8000)"
    by (simp add: demo_jwt_def demo_config_def)
  have h4: "type' (demo_decoded (Some ''f1'') (Some ''refresh'') 8000) = Some ''refresh''"
    and h6: "template (tokenFamily' (demo_decoded (Some ''f1'') (Some ''refresh'') 8000)) = ''f1''"
    by (simp_all add: demo_decoded_def)
  have h5: "refresh_tokens (redis (world_of older_store)) ''O'' = Some (demo_record, 600000)"
    by (simp add: world_of_def older_store_def)
  let ?run = "refreshTokenRotation demo_jwt demo_config ''O'' (Some ''tablet'') None
                (world_of older_store)"
  have out: "fst ?run = Inr \<lparr>accessToken = ''A'', refreshToken = ''R''\<rparr>"
    unfolding rotation_success [OF h1 h3 h4 h5] Let_def
    by (simp add: demo_jwt_def demo_config_def demo_decoded_def demo_payload_def)
  from rotation_rotates [where ua = "Some ''tablet''" and ip = None,
      OF h1 h3 h4 h5 surjective_pairing] out
  have "refresh_tokens (redis (snd ?run)) ''O'' = None
      \<and> token_families (redis (snd ?run)) ''f1'' = Some (''R'', 604800)"
    unfolding h6 by auto
  with h1 demo_jwt_round_trip h3 h4 h5 out show ?thesis by blast
qed

text \<open>
  C7. When \<^verbatim>\<open>jwt.verify\<close> throws \<^verbatim>\<open>TokenExpiredError\<close>, the rotation deletes the entry
  under the presented token and rethrows it (the spec's TokenExpired). Any other error
  of \<^verbatim>\<open>jwt.verify\<close> (a bad signature is \<^verbatim>\<open>JsonWebTokenError\<close>) is rethrown as it is, and
  a token that verifies with a \<^verbatim>\<open>type\<close> other than \<^verbatim>\<open>'refresh'\<close> gets
  \<^verbatim>\<open>Error('Invalid token type')\<close> (both the spec's InvalidToken); in these two cases
  the store is not touched.
\<close>

theorem rotation_rejects:
  assumes "faults w = []"
    and "refreshTokenRotation jwt config old ua ip w = (result, w')"
  shows "(jwt_verify jwt old (refreshSecret config) (now w) = Inl TokenExpiredError \<longrightarrow>
            result = Inl (Jwt TokenExpiredError)
            \<and> redis w' = (redis w)\<lparr>refresh_tokens := (refresh_tokens (redis w))(old := None)\<rparr>
            \<and> trace w' = trace w @ [Done CONNECT, Done (DEL (REFRESH_TOKEN old))])
    \<and> (\<forall>e. jwt_verify jwt old (refreshSecret config) (now w) = Inl e \<and> e \<noteq> TokenExpiredError \<longrightarrow>
            result = Inl (Jwt e) \<and> redis w' = redis w
            \<and> trace w' = trace w @ [Done CONNECT])
    \<and> (\<forall>decoded. jwt_verify jwt old (refreshSecret config) (now w) = Inr decoded
            \<and> type' decoded \<noteq> Some ''refresh'' \<longrightarrow>
            result = Inl (Error ''Invalid token type'') \<and> redis w' = redis w
            \<and> trace w' = trace w @ [Done CONNECT])"
  using assms
  by (auto simp add: rotation_verify_fails rotation_wrong_type)

theorem rotation_rejects_witness:
  "faults (world_of expired_store) = []
   \<and> jwt_verify demo_jwt ''E'' (refreshSecret demo_config) (now (world_of expired_store))
       = Inl TokenExpiredError
   \<and> refresh_tokens (redis (world_of expired_store)) ''E'' = Some (demo_record, 5)
   \<and> fst (refreshTokenRotation demo_jwt demo_config ''E'' None None (world_of expired_store))
       = Inl (Jwt TokenExpiredError)
   \<and> refresh_tokens (redis (snd (refreshTokenRotation demo_jwt demo_config ''E'' None None
         (world_of expired_store)))) ''E'' = None
   \<and> jwt_verify demo_jwt ''forged'' (refreshSecret demo_config) (now (world_of expired_store))
       = Inl JsonWebTokenError
   \<and> fst (refreshTokenRotation demo_jwt demo_config ''forged'' None None
         (world_of expired_store)) = Inl (Jwt JsonWebTokenError)
   \<and> jwt_verify demo_jwt ''N'' (refreshSecret demo_config) (now (world_of expired_store))
       = Inr (demo_decoded (Some ''f1'') None 9000)
   \<and> type' (demo_decoded (Some ''f1'') None 9000) \<noteq> Some ''refresh''
   \<and> fst (refreshTokenRotation demo_jwt demo_config ''N'' None None (world_of expired_store))
       = Inl (Error ''Invalid token type'')"
proof -
  have h: "faults (world_of expired_store) = []"
    by (simp add: world_of_def)
  have e: "jwt_verify demo_jwt ''E'' (refreshSecret demo_config) (now (world_of expired_store))
       = Inl TokenExpiredError"
    and f: "jwt_verify demo_jwt ''forged'' (refreshSecret demo_config)
       (now (world_of expired_store)) = Inl JsonWebTokenError"
    and n: "jwt_verify demo_jwt ''N'' (refreshSecret demo_config) (now (world_of expired_store))
       = Inr (demo_decoded (Some ''f1'') None 9000)"
    by (simp_all add: demo_jwt_def demo_config_def)
  have t: "type' (demo_decoded (Some ''f1'') None 9000) \<noteq> Some ''refresh''"
    by (simp add: demo_decoded_def)
  have st: "refresh_tokens (redis (world_of expired_store)) ''E'' = Some (demo_record, 5)"
    by (simp add: world_of_def expired_store_def)
  from rotation_rejects [where jwt = demo_jwt and config = demo_config and old = "''E''"
      and ua = None and ip = None, OF h surjective_pairing] e
  have 1: "fst (refreshTokenRotation demo_jwt demo_config ''E'' None None (world_of expired_store))
       = Inl (Jwt TokenExpiredError)
     \<and> refresh_tokens (redis (snd (refreshTokenRotation demo_jwt demo_config ''E'' None None
         (world_of expired_store)))) ''E'' = None"
    by simp
  from rotation_rejects [where jwt = demo_jwt and config = demo_config and old = "''forged''"
      and ua = None and ip = None, OF h surjective_pairing] f
  have 2: "fst (refreshTokenRotation demo_jwt demo_config ''forged'' None None
         (world_of expired_store)) = Inl (Jwt JsonWebTokenError)"
    by simp
  from rotation_rejects [where jwt = demo_jwt and config = demo_config and old = "''N''"
      and ua = None and ip = None, OF h surjective_pairing] n t
  have 3: "fst (refreshTokenRotation demo_jwt demo_config ''N'' None None (world_of expired_store))
       = Inl (Error ''Invalid token type'')"
    by simp
  from h e f n t st 1 2 3 show ?thesis by blast
qed

section \<open>Blacklisting\<close>

lemma blacklistAccessToken_ok:
  assumes "faults w = []"
  shows "blacklistAccessToken jwt config token w =
    (Inr (),
     case jwt_verify jwt token (secret config) (now w) of
       Inl e \<Rightarrow> w
     | Inr decoded \<Rightarrow>
         (case exp decoded of
            None \<Rightarrow> w\<lparr>trace := trace w @ [Done CONNECT]\<rparr>
          | Some e \<Rightarrow>
              if 0 < e - now w div 1000
              then w\<lparr>redis := (redis w)\<lparr>blacklist := (blacklist (redis w))
                                   (token \<mapsto> (''1'', e - now w div 1000))\<rparr>,
                     trace := trace w @ [Done CONNECT,
                        Done (SETEX (BLACKLIST token) (e - now w div 1000) (Str ''1''))]\<rparr>
              else w\<lparr>trace := trace w @ [Done CONNECT]\<rparr>))"
  using assms
  by (simp add: blacklistAccessToken_def try_catch_def await_def verify_def ok Date_now_def
      Let_def resolve_def split: sum.splits option.splits)

text \<open>
  C6. Against a store that answers, \<^verbatim>\<open>blacklistAccessToken\<close> returns normally and writes
  exactly when the token verifies and \<^verbatim>\<open>ttl = exp - Math.floor(Date.now() / 1000)\<close> is
  positive: then its one write is the entry under the token with that \<^verbatim>\<open>ttl\<close> as time
  to live. In every other case (the token does not verify, it has no \<^verbatim>\<open>exp\<close>, or
  \<^verbatim>\<open>exp\<close> has passed) it writes nothing and the store is as it was.
\<close>

theorem blacklistAccessToken_residual:
  assumes "faults w = []"
    and "blacklistAccessToken jwt config token w = (result, w')"
  shows "result = Inr ()
    \<and> (\<forall>decoded e. jwt_verify jwt token (secret config) (now w) = Inr decoded
           \<and> exp decoded = Some e \<and> 0 < e - now w div 1000 \<longrightarrow>
         redis w' = (redis w)\<lparr>blacklist := (blacklist (redis w))
                                 (token \<mapsto> (''1'', e - now w div 1000))\<rparr>
         \<and> filter is_write (drop (length (trace w)) (trace w'))
             = [Done (SETEX (BLACKLIST token) (e - now w div 1000) (Str ''1''))])
    \<and> (\<not> (\<exists>decoded e. jwt_verify jwt token (secret config) (now w) = Inr decoded
           \<and> exp decoded = Some e \<and> 0 < e - now w div 1000) \<longrightarrow>
         redis w' = redis w
         \<and> filter is_write (drop (length (trace w)) (trace w')) = [])"
  using assms(2) unfolding blacklistAccessToken_ok [OF assms(1)]
  by (auto split: sum.splits option.splits if_splits)


theorem blacklistAccessToken_residual_witness:
  "faults (world_of empty_store) = []
   \<and> jwt_verify demo_jwt ''A'' (secret demo_config) (now (world_of empty_store))
       = Inr (demo_decoded (Some ''f1'') None 5000)
   \<and> exp (demo_decoded (Some ''f1'') None 5000) = Some 5000
   \<and> (0::int) < 5000 - now (world_of empty_store) div 1000
   \<and> fst (blacklistAccessToken demo_jwt demo_config ''A'' (world_of empty_store)) = Inr ()
   \<and> blacklist (redis (snd (blacklistAccessToken demo_jwt demo_config ''A''
        (world_of empty_store)))) ''A'' = Some (''1'', 4000)
   \<and> jwt_verify demo_jwt ''P'' (secret demo_config) (now (world_of empty_store))
       = Inr (demo_decoded (Some ''f1'') None 1000)
   \<and> redis (snd (blacklistAccessToken demo_jwt demo_config ''P'' (world_of empty_store)))
       = empty_store"
proof -
  have h: "faults (world_of empty_store) = []"
    and t: "now (world_of empty_store) div 1000 = 1000"
    and r: "redis (world_of empty_store) = empty_store"
    by (simp_all add: world_of_def)
  have a: "jwt_verify demo_jwt ''A'' (secret demo_config) (now (world_of empty_store))
       = Inr (demo_decoded (Some ''f1'') None 5000)"
    and p: "jwt_verify demo_jwt ''P'' (secret demo_config) (now (world_of empty_store))
       = Inr (demo_decoded (Some ''f1'') None 1000)"
    by (simp_all add: demo_jwt_def demo_config_def)
  have e: "exp (demo_decoded (Some ''f1'') None 5000) = Some 5000"
    and e': "exp (demo_decoded (Some ''f1'') None 1000) = Some 1000"
    by (simp_all add: demo_decoded_def)
  have pos: "(0::int) < 5000 - now (world_of empty_store) div 1000"
    by (simp add: t)
  note runA = blacklistAccessToken_residual [where jwt = demo_jwt and config = demo_config
      and token = "''A''", OF h surjective_pairing]
  note runP = blacklistAccessToken_residual [where jwt = demo_jwt and config = demo_config
      and token = "''P''", OF h surjective_pairing]
  from runA have 1: "fst (blacklistAccessToken demo_jwt demo_config ''A'' (world_of empty_store))
      = Inr ()"
    by (rule conjunct1)
  from runA a e pos have "redis (snd (blacklistAccessToken demo_jwt demo_config ''A''
        (world_of empty_store)))
      = (redis (world_of empty_store))\<lparr>blacklist := (blacklist (redis (world_of empty_store)))
            (''A'' \<mapsto> (''1'', 5000 - now (world_of empty_store) div 1000))\<rparr>"
    by blast
  then have 2: "blacklist (redis (snd (blacklistAccessToken demo_jwt demo_config ''A''
        (world_of empty_store)))) ''A'' = Some (''1'', 4000)"
    by (simp add: t)
  from runP p e' t have "redis (snd (blacklistAccessToken demo_jwt demo_config ''P''
      (world_of empty_store))) = redis (world_of empty_store)"
    by auto
  then have 3: "redis (snd (blacklistAccessToken demo_jwt demo_config ''P''
      (world_of empty_store))) = empty_store"
    by (simp add: r)
  from h a e pos 1 2 p 3 show ?thesis by blast
qed

section \<open>Failures of the store\<close>

text \<open>
  Every building block hands a failure of the store on, and so does every operation of
  the service that has no \<^verbatim>\<open>catch\<close> block of its own. The \<^verbatim>\<open>catch\<close> block of the
  rotation rethrows what it caught.
\<close>

lemma propagatesI:
  assumes "\<And>w. \<exists>tr. trace (snd (m w)) = trace w @ tr
        \<and> ((\<exists>c. Failed c \<in> set tr) \<longrightarrow> fst (m w) = Inl RedisUnavailable)"
  shows "propagates m"
  using assms by (simp add: propagates_def)

lemma propagates_resolve [intro!]: "propagates (resolve a)"
  by (simp add: propagates_def resolve_def)

lemma propagates_throw [intro!]: "propagates (throw e)"
  by (simp add: propagates_def throw_def)

lemma propagates_command [intro!]: "propagates (command c f)"
proof (rule propagatesI)
  fix w
  show "\<exists>tr. trace (snd (command c f w)) = trace w @ tr
        \<and> ((\<exists>c'. Failed c' \<in> set tr) \<longrightarrow> fst (command c f w) = Inl RedisUnavailable)"
  proof (cases "faults w")
    case Nil
    then show ?thesis
      by (auto simp add: command_def split: prod.splits)
  next
    case (Cons b bs)
    then show ?thesis
      by (cases b) (auto simp add: command_def split: prod.splits)
  qed
qed

lemma propagates_await [intro!]:
  assumes m: "propagates m" and f: "\<And>a. propagates (f a)"
  shows "propagates (await m f)"
proof (rule propagatesI)
  fix w
  from m obtain tr1 where t1: "trace (snd (m w)) = trace w @ tr1"
    and p1: "(\<exists>c. Failed c \<in> set tr1) \<longrightarrow> fst (m w) = Inl RedisUnavailable"
    unfolding propagates_def by blast
  obtain r w1 where mw: "m w = (r, w1)" by (cases "m w")
  show "\<exists>tr. trace (snd (await m f w)) = trace w @ tr
        \<and> ((\<exists>c. Failed c \<in> set tr) \<longrightarrow> fst (await m f w) = Inl RedisUnavailable)"
  proof (cases r)
    case (Inl e)
    with mw t1 p1 show ?thesis
      by (auto simp add: await_def)
  next
    case (Inr a)
    from f [of a] obtain tr2 where t2: "trace (snd (f a w1)) = trace w1 @ tr2"
      and p2: "(\<exists>c. Failed c \<in> set tr2) \<longrightarrow> fst (f a w1) = Inl RedisUnavailable"
      unfolding propagates_def by blast
    from Inr mw p1 have clean: "\<not> (\<exists>c. Failed c \<in> set tr1)" by auto
    from Inr mw have aw: "await m f w = f a w1" by (simp add: await_def)
    from t1 mw have "trace w1 = trace w @ tr1" by simp
    with t2 have "trace (snd (await m f w)) = trace w @ (tr1 @ tr2)"
      by (simp add: aw)
    moreover from clean p2 have "(\<exists>c. Failed c \<in> set (tr1 @ tr2))
        \<longrightarrow> fst (await m f w) = Inl RedisUnavailable"
      by (auto simp add: aw)
    ultimately show ?thesis by blast
  qed
qed

lemma propagates_try_catch:
  assumes m: "propagates m" and h: "\<And>e. propagates (h e)"
    and rethrow: "\<And>w. h RedisUnavailable w = (Inl RedisUnavailable, w)"
  shows "propagates (try_catch m h)"
proof (rule propagatesI)
  fix w
  from m obtain tr1 where t1: "trace (snd (m w)) = trace w @ tr1"
    and p1: "(\<exists>c. Failed c \<in> set tr1) \<longrightarrow> fst (m w) = Inl RedisUnavailable"
    unfolding propagates_def by blast
  obtain r w1 where mw: "m w = (r, w1)" by (cases "m w")
  show "\<exists>tr. trace (snd (try_catch m h w)) = trace w @ tr
        \<and> ((\<exists>c. Failed c \<in> set tr) \<longrightarrow> fst (try_catch m h w) = Inl RedisUnavailable)"
  proof (cases r)
    case (Inr a)
    with mw t1 p1 show ?thesis
      by (auto simp add: try_catch_def)
  next
    case (Inl e)
    from Inl mw have tc: "try_catch m h w = h e w1" by (simp add: try_catch_def)
    from t1 mw have tw1: "trace w1 = trace w @ tr1" by simp
    show ?thesis
    proof (cases "e = RedisUnavailable")
      case True
      with tc rethrow tw1 show ?thesis by auto
    next
      case False
      with Inl mw p1 have clean: "\<not> (\<exists>c. Failed c \<in> set tr1)" by auto
      from h [of e] obtain tr2 where t2: "trace (snd (h e w1)) = trace w1 @ tr2"
        and p2: "(\<exists>c. Failed c \<in> set tr2) \<longrightarrow> fst (h e w1) = Inl RedisUnavailable"
        unfolding propagates_def by blast
      from t2 tw1 have "trace (snd (try_catch m h w)) = trace w @ (tr1 @ tr2)"
        by (simp add: tc)
      moreover from clean p2 have "(\<exists>c. Failed c \<in> set (tr1 @ tr2))
          \<longrightarrow> fst (try_catch m h w) = Inl RedisUnavailable"
        by (auto simp add: tc)
      ultimately show ?thesis by blast
    qed
  qed
qed

lemma propagates_for_of [intro!]:
  assumes "\<And>x. propagates (body x)"
  shows "propagates (for_of xs body)"
  using assms by (induction xs) auto

lemma propagates_if [intro!]:
  "propagates m \<Longrightarrow> propagates n \<Longrightarrow> propagates (if b then m else n)"
  by simp

lemma propagates_verify [intro!]: "propagates (verify jwt token sec)"
  by (auto simp add: propagates_def verify_def split: sum.splits)

lemma propagates_sign [intro!]: "propagates (sign jwt payload ty sec expires)"
  by (simp add: propagates_def sign_def)

lemma propagates_Date_now [intro!]: "propagates Date_now"
  by (simp add: propagates_def Date_now_def)

lemma propagates_setEx_or_refuse [intro!]: "propagates (setEx_or_refuse k ttl v f)"
  unfolding setEx_or_refuse_def by auto

lemma propagates_primitives [intro!]:
  "propagates getRedisClient"
  "propagates (redis_get_refresh_token t)"
  "propagates (redis_setEx_refresh_token t ttl d)"
  "propagates (redis_del_refresh_token t)"
  "propagates (redis_get_token_family f)"
  "propagates (redis_setEx_token_family f ttl t)"
  "propagates (redis_del_token_family f)"
  "propagates (redis_exists_token_family f)"
  "propagates (redis_setEx_blacklist t ttl v)"
  "propagates (redis_get_blacklist t)"
  "propagates (redis_sAdd_user_sessions u x)"
  "propagates (redis_sRem_user_sessions u x)"
  "propagates (redis_sMembers_user_sessions u)"
  "propagates (redis_del_user_sessions u)"
  "propagates redis_keys_user_sessions"
  unfolding getRedisClient_def redis_get_refresh_token_def redis_setEx_refresh_token_def
    redis_del_refresh_token_def redis_get_token_family_def redis_setEx_token_family_def
    redis_del_token_family_def redis_exists_token_family_def redis_setEx_blacklist_def
    redis_get_blacklist_def redis_sAdd_user_sessions_def redis_sRem_user_sessions_def
    redis_sMembers_user_sessions_def redis_del_user_sessions_def redis_keys_user_sessions_def
  by auto

lemma propagates_revokeTokenFamily [intro!]: "propagates (revokeTokenFamily fam)"
  unfolding revokeTokenFamily_def by auto

lemma propagates_generateTokenPair: "propagates (generateTokenPair jwt config uuid user ua ip)"
  unfolding generateTokenPair_def Let_def by auto

lemma propagates_refreshTokenRotation:
  "propagates (refreshTokenRotation jwt config old ua ip)"
  unfolding refreshTokenRotation_def Let_def
  by (intro propagates_await propagates_try_catch)
    (auto simp add: throw_def split: option.splits)

lemma propagates_revokeAllUserTokens: "propagates (revokeAllUserTokens uid)"
  unfolding revokeAllUserTokens_def by auto

lemma propagates_collect_sessions [intro!]: "propagates (collect_sessions fams acc)"
  by (induction fams arbitrary: acc) (auto split: option.splits)

lemma propagates_getUserSessions: "propagates (getUserSessions uid)"
  unfolding getUserSessions_def by auto

lemma propagates_cleanupExpiredTokens: "propagates cleanupExpiredTokens"
  unfolding cleanupExpiredTokens_def by auto

lemma propagates_isTokenBlacklisted: "propagates (isTokenBlacklisted token)"
  unfolding isTokenBlacklisted_def by auto

text \<open>
  C4. Every operation is to hand a failure of the store to its caller. Issuing,
  rotating, revoking, listing, sweeping and the blacklist lookup do, by the lemmas above.
  \<^verbatim>\<open>blacklistAccessToken\<close> does not: its \<^verbatim>\<open>try\<close> block holds \<^verbatim>\<open>getRedisClient\<close> and
  \<^verbatim>\<open>redis.setEx\<close> as well as \<^verbatim>\<open>jwt.verify\<close>, and its \<^verbatim>\<open>catch\<close> block, written for
  a token that is invalid or expired, is empty. With a valid token and a store that
  fails at \<^verbatim>\<open>SETEX\<close>, the call returns normally, nothing is written, and the token is
  not blacklisted.
\<close>

theorem blacklistAccessToken_swallows_store_failure:
  "jwt_verify demo_jwt ''A'' (secret demo_config) (now flaky_world)
       = Inr (demo_decoded (Some ''f1'') None 5000)
   \<and> blacklistAccessToken demo_jwt demo_config ''A'' flaky_world =
       (Inr (), flaky_world\<lparr>trace := [Done CONNECT,
                                      Failed (SETEX (BLACKLIST ''A'') 4000 (Str ''1''))],
                            faults := []\<rparr>)
   \<and> fst (isTokenBlacklisted ''A'' (snd (blacklistAccessToken demo_jwt demo_config ''A''
            flaky_world))) = Inr False"
  by (simp add: blacklistAccessToken_def isTokenBlacklisted_def try_catch_def await_def verify_def
      getRedisClient_def redis_setEx_blacklist_def redis_get_blacklist_def setEx_or_refuse_def
      command_def Date_now_def Let_def resolve_def flaky_world_def demo_jwt_def demo_config_def
      demo_decoded_def empty_store_def)

section \<open>Sweeping\<close>

lemma sweep_inner_ok:
  "faults w = [] \<Longrightarrow>
   for_of fams (\<lambda>family.
       await (redis_exists_token_family family) (\<lambda>exists_reply.
       if \<not> exists_reply then redis_sRem_user_sessions u family else resolve ())) w =
     (Inr (),
      w\<lparr>redis := (redis w)\<lparr>user_sessions :=
             sweep_set (token_families (redis w)) u fams (user_sessions (redis w))\<rparr>,
        trace := trace w @ concat (map (\<lambda>family.
            Done (EXISTS (TOKEN_FAMILY family)) #
            (if token_families (redis w) family = None
             then [Done (SREM (USER_SESSIONS u) family)] else [])) fams)\<rparr>)"
proof (induction fams arbitrary: w)
  case Nil
  then show ?case by (simp add: resolve_def sweep_set_def)
next
  case (Cons family fams)
  then show ?case
    by (simp add: await_def ok resolve_def sweep_set_def)
qed

lemma sweep_outer_ok:
  "faults w = [] \<Longrightarrow>
   \<exists>tr. for_of ks (\<lambda>userKey.
       await (redis_sMembers_user_sessions userKey) (\<lambda>tokenFamilies.
       for_of tokenFamilies (\<lambda>family.
         await (redis_exists_token_family family) (\<lambda>exists_reply.
         if \<not> exists_reply then redis_sRem_user_sessions userKey family
         else resolve ())))) w =
     (Inr (),
      w\<lparr>redis := (redis w)\<lparr>user_sessions :=
             sweep_all (token_families (redis w)) ks (user_sessions (redis w))\<rparr>,
        trace := trace w @ tr\<rparr>)"
proof (induction ks arbitrary: w)
  case Nil
  show ?case
    by (rule exI [of _ "[]"]) (simp add: resolve_def sweep_all_def)
next
  case (Cons k ks)
  let ?body = "\<lambda>userKey.
       await (redis_sMembers_user_sessions userKey) (\<lambda>tokenFamilies.
       for_of tokenFamilies (\<lambda>family.
         await (redis_exists_token_family family) (\<lambda>exists_reply.
         if \<not> exists_reply then redis_sRem_user_sessions userKey family
         else resolve ())))"
  from Cons.prems obtain w1 t1 where
    first: "?body k w = (Inr (), w1)"
    and w1: "w1 = w\<lparr>redis := (redis w)\<lparr>user_sessions :=
               sweep_set (token_families (redis w)) k (members (user_sessions (redis w)) k)
                 (user_sessions (redis w))\<rparr>,
             trace := trace w @ t1\<rparr>"
    by (simp add: await_def ok sweep_inner_ok)
  have f1: "faults w1 = []" using Cons.prems by (simp add: w1)
  from Cons.IH [OF f1] obtain tr where
    rest: "for_of ks ?body w1 =
      (Inr (), w1\<lparr>redis := (redis w1)\<lparr>user_sessions :=
             sweep_all (token_families (redis w1)) ks (user_sessions (redis w1))\<rparr>,
        trace := trace w1 @ tr\<rparr>)"
    by blast
  have "for_of (k # ks) ?body w =
      (Inr (), w\<lparr>redis := (redis w)\<lparr>user_sessions :=
             sweep_all (token_families (redis w)) (k # ks) (user_sessions (redis w))\<rparr>,
        trace := trace w @ (t1 @ tr)\<rparr>)"
    by (simp add: await_Inr [of "?body k" w "()" w1, OF first] rest)
      (simp add: w1 sweep_all_def)
  then show ?case by blast
qed

lemma cleanupExpiredTokens_ok:
  assumes "faults w = []"
  shows "\<exists>tr. cleanupExpiredTokens w =
    (Inr (),
     w\<lparr>redis := (redis w)\<lparr>user_sessions :=
            sweep_all (token_families (redis w)) (map fst (user_sessions (redis w)))
              (user_sessions (redis w))\<rparr>,
       trace := trace w @ tr\<rparr>)"
proof -
  let ?v = "w\<lparr>trace := trace w @ [Done CONNECT, Done (KEYS (USER_SESSIONS ''*''))]\<rparr>"
  have v: "faults ?v = []" using assms by simp
  from sweep_outer_ok [OF v, of "map fst (user_sessions (redis w))"] obtain tr where
    "for_of (map fst (user_sessions (redis w))) (\<lambda>userKey.
       await (redis_sMembers_user_sessions userKey) (\<lambda>tokenFamilies.
       for_of tokenFamilies (\<lambda>family.
         await (redis_exists_token_family family) (\<lambda>exists_reply.
         if \<not> exists_reply then redis_sRem_user_sessions userKey family
         else resolve ())))) ?v =
     (Inr (),
      ?v\<lparr>redis := (redis ?v)\<lparr>user_sessions :=
             sweep_all (token_families (redis ?v)) (map fst (user_sessions (redis w)))
               (user_sessions (redis ?v))\<rparr>,
        trace := trace ?v @ tr\<rparr>)"
    by blast
  then have "cleanupExpiredTokens w =
    (Inr (),
     w\<lparr>redis := (redis w)\<lparr>user_sessions :=
            sweep_all (token_families (redis w)) (map fst (user_sessions (redis w)))
              (user_sessions (redis w))\<rparr>,
       trace := trace w @ ([Done CONNECT, Done (KEYS (USER_SESSIONS ''*''))] @ tr)\<rparr>)"
    using assms by (simp add: cleanupExpiredTokens_def await_def ok)
  then show ?thesis by blast
qed

lemma members_sweep_set:
  "members (sweep_set ptrs u fams al) u' =
     (if u' = u then filter (\<lambda>x. \<not> (ptrs x = None \<and> x \<in> set fams)) (members al u)
      else members al u')"
proof (induction fams arbitrary: al)
  case Nil
  then show ?case by (simp add: sweep_set_def)
next
  case (Cons f fams)
  have step: "sweep_set ptrs u (f # fams) al =
      sweep_set ptrs u fams (if ptrs f = None then remove_member u f al else al)"
    by (simp add: sweep_set_def)
  show ?case
    unfolding step Cons.IH
    by (auto simp add: members_remove_member removeAll_filter_not_eq intro: filter_cong)
qed

lemma members_sweep_own:
  "members (sweep_set ptrs u (members al u) al) u' =
     (if u' = u then filter (\<lambda>x. ptrs x \<noteq> None) (members al u) else members al u')"
  by (auto simp add: members_sweep_set intro: filter_cong)

lemma members_sweep_all:
  "members (sweep_all ptrs ks al) u' =
     (if u' \<in> set ks then filter (\<lambda>x. ptrs x \<noteq> None) (members al u') else members al u')"
proof (induction ks arbitrary: al)
  case Nil
  then show ?case by (simp add: sweep_all_def)
next
  case (Cons k ks)
  have step: "sweep_all ptrs (k # ks) al = sweep_all ptrs ks (sweep_set ptrs k (members al k) al)"
    by (simp add: sweep_all_def)
  show ?case
    unfolding step Cons.IH
    by (simp add: members_sweep_own)
qed

lemma only_dangling_removed_refl [simp]: "only_dangling_removed s s"
  by (simp add: only_dangling_removed_def)

lemma only_dangling_removed_trans:
  "only_dangling_removed a b \<Longrightarrow> only_dangling_removed b c \<Longrightarrow> only_dangling_removed a c"
  by (simp add: only_dangling_removed_def)

lemma sweeps_safely_resolve [intro!]: "sweeps_safely (resolve a)"
  by (simp add: sweeps_safely_def resolve_def)

lemma sweeps_safely_await [intro!]:
  assumes "sweeps_safely m" and "\<And>a. sweeps_safely (f a)"
  shows "sweeps_safely (await m f)"
  unfolding sweeps_safely_def
proof
  fix w
  obtain r w1 where mw: "m w = (r, w1)" by (cases "m w")
  from assms(1) mw have 1: "only_dangling_removed (redis w) (redis w1)"
    unfolding sweeps_safely_def by (metis snd_conv)
  show "only_dangling_removed (redis w) (redis (snd (await m f w)))"
  proof (cases r)
    case (Inl e)
    with mw 1 show ?thesis by (simp add: await_def)
  next
    case (Inr a)
    from assms(2) [of a] have "only_dangling_removed (redis w1) (redis (snd (f a w1)))"
      unfolding sweeps_safely_def by blast
    with 1 Inr mw show ?thesis
      by (auto simp add: await_def intro: only_dangling_removed_trans)
  qed
qed

lemma sweeps_safely_for_of [intro!]:
  assumes "\<And>x. sweeps_safely (body x)"
  shows "sweeps_safely (for_of xs body)"
  using assms by (induction xs) auto

lemma sweeps_safely_read:
  assumes "\<And>s. snd (f s) = s"
  shows "sweeps_safely (command c f)"
  unfolding sweeps_safely_def
proof
  fix w
  have "redis (snd (command c f w)) = redis w"
    using assms [of "redis w"]
    by (cases "f (redis w)") (auto simp add: command_def split: list.splits)
  then show "only_dangling_removed (redis w) (redis (snd (command c f w)))"
    by simp
qed

lemma sweeps_safely_reads [intro!]:
  "sweeps_safely getRedisClient"
  "sweeps_safely redis_keys_user_sessions"
  "sweeps_safely (redis_sMembers_user_sessions u)"
  unfolding getRedisClient_def redis_keys_user_sessions_def redis_sMembers_user_sessions_def
  by (simp_all add: sweeps_safely_read)

lemma remove_dangling:
  assumes "token_families s family = None"
  shows "only_dangling_removed s (s\<lparr>user_sessions := remove_member u family (user_sessions s)\<rparr>)"
  using assms by (auto simp add: only_dangling_removed_def members_remove_member)

lemma sweeps_safely_guarded [intro!]:
  "sweeps_safely
     (await (redis_exists_token_family family) (\<lambda>exists_reply.
        if \<not> exists_reply then redis_sRem_user_sessions u family else resolve ()))"
  unfolding sweeps_safely_def
proof
  fix w
  let ?m = "await (redis_exists_token_family family) (\<lambda>exists_reply.
        if \<not> exists_reply then redis_sRem_user_sessions u family else resolve ())"
  have "redis (snd (?m w)) = redis w
      \<or> (token_families (redis w) family = None
          \<and> redis (snd (?m w)) = (redis w)\<lparr>user_sessions :=
                remove_member u family (user_sessions (redis w))\<rparr>)"
    by (auto simp add: await_def redis_exists_token_family_def redis_sRem_user_sessions_def
        command_def resolve_def split: list.splits)
  then show "only_dangling_removed (redis w) (redis (snd (?m w)))"
    by (auto simp add: remove_dangling)
qed

lemma sweeps_safely_cleanupExpiredTokens: "sweeps_safely cleanupExpiredTokens"
  unfolding cleanupExpiredTokens_def by auto

lemma cleanupExpiredTokens_run:
  assumes "faults w = []" and "cleanupExpiredTokens w = (result, w')"
  shows "result = Inr ()
    \<and> (\<forall>uid. members (user_sessions (redis w')) uid =
          filter (\<lambda>family. token_families (redis w) family \<noteq> None)
            (members (user_sessions (redis w)) uid))
    \<and> token_families (redis w') = token_families (redis w)
    \<and> refresh_tokens (redis w') = refresh_tokens (redis w)
    \<and> blacklist (redis w') = blacklist (redis w)"
proof -
  from cleanupExpiredTokens_ok [OF assms(1)] assms(2) obtain tr where
    res: "result = Inr ()"
    and w': "w' = w\<lparr>redis := (redis w)\<lparr>user_sessions :=
            sweep_all (token_families (redis w)) (map fst (user_sessions (redis w)))
              (user_sessions (redis w))\<rparr>,
       trace := trace w @ tr\<rparr>"
    by auto
  have "members (user_sessions (redis w')) uid =
          filter (\<lambda>family. token_families (redis w) family \<noteq> None)
            (members (user_sessions (redis w)) uid)" for uid
    by (cases "uid \<in> set (map fst (user_sessions (redis w)))")
      (simp_all add: w' members_sweep_all members_not_key)
  with res show ?thesis by (simp add: w')
qed

text \<open>
  C9. Whatever the store and whatever its failures, a run of \<^verbatim>\<open>cleanupExpiredTokens\<close>
  leaves the pointers, the records and the blacklist as they were and keeps in every
  session set each member whose pointer key exists. A run against a store that answers
  returns normally, and afterwards every session set holds exactly those of its former
  members whose pointer key exists: the members whose pointer is missing, and only they,
  are removed.
\<close>

theorem cleanupExpiredTokens_sweeps:
  assumes "cleanupExpiredTokens w = (result, w')"
  shows "token_families (redis w') = token_families (redis w)
    \<and> refresh_tokens (redis w') = refresh_tokens (redis w)
    \<and> blacklist (redis w') = blacklist (redis w)
    \<and> (\<forall>uid family. family \<in> set (members (user_sessions (redis w)) uid)
          \<longrightarrow> token_families (redis w) family \<noteq> None
          \<longrightarrow> family \<in> set (members (user_sessions (redis w')) uid))
    \<and> (faults w = [] \<longrightarrow> result = Inr ()
          \<and> (\<forall>uid. members (user_sessions (redis w')) uid =
                filter (\<lambda>family. token_families (redis w) family \<noteq> None)
                  (members (user_sessions (redis w)) uid)))"
proof -
  from sweeps_safely_cleanupExpiredTokens assms
  have "only_dangling_removed (redis w) (redis w')"
    unfolding sweeps_safely_def by (metis snd_conv)
  then have safe: "token_families (redis w') = token_families (redis w)
    \<and> refresh_tokens (redis w') = refresh_tokens (redis w)
    \<and> blacklist (redis w') = blacklist (redis w)
    \<and> (\<forall>uid family. family \<in> set (members (user_sessions (redis w)) uid)
          \<longrightarrow> token_families (redis w) family \<noteq> None
          \<longrightarrow> family \<in> set (members (user_sessions (redis w')) uid))"
    unfolding only_dangling_removed_def by blast
  have "result = Inr ()
          \<and> (\<forall>uid. members (user_sessions (redis w')) uid =
                filter (\<lambda>family. token_families (redis w) family \<noteq> None)
                  (members (user_sessions (redis w)) uid))" if "faults w = []"
    using cleanupExpiredTokens_run [OF that assms] by blast
  with safe show ?thesis by blast
qed

theorem cleanupExpiredTokens_sweeps_witness:
  "faults (world_of two_device_store) = []
   \<and> members (user_sessions (redis (world_of two_device_store))) ''u1''
       = [''f1'', ''f2'', ''f3'', ''f4'']
   \<and> token_families two_device_store ''f3'' = None
   \<and> token_families two_device_store ''f4'' \<noteq> None
   \<and> fst (cleanupExpiredTokens (world_of two_device_store)) = Inr ()
   \<and> members (user_sessions (redis (snd (cleanupExpiredTokens (world_of two_device_store)))))
        ''u1'' = [''f1'', ''f2'', ''f4'']
   \<and> token_families (redis (snd (cleanupExpiredTokens (world_of two_device_store))))
       = token_families two_device_store"
proof -
  have h: "faults (world_of two_device_store) = []"
    and r: "redis (world_of two_device_store) = two_device_store"
    by (simp_all add: world_of_def)
  have m': "members (user_sessions two_device_store) ''u1'' = [''f1'', ''f2'', ''f3'', ''f4'']"
    by (simp add: two_device_store_def members_def)
  then have m: "members (user_sessions (redis (world_of two_device_store))) ''u1''
       = [''f1'', ''f2'', ''f3'', ''f4'']"
    by (simp only: r)
  have p: "token_families two_device_store ''f1'' \<noteq> None"
    "token_families two_device_store ''f2'' \<noteq> None"
    "token_families two_device_store ''f3'' = None"
    "token_families two_device_store ''f4'' \<noteq> None"
    by (simp_all add: two_device_store_def)
  have flt: "filter (\<lambda>family. token_families two_device_store family \<noteq> None)
       [''f1'', ''f2'', ''f3'', ''f4''] = [''f1'', ''f2'', ''f4'']"
    by (simp add: two_device_store_def)
  note run = cleanupExpiredTokens_sweeps [OF surjective_pairing, of "world_of two_device_store"]
  from run h have 1: "fst (cleanupExpiredTokens (world_of two_device_store)) = Inr ()"
    by blast
  from run h have "members (user_sessions (redis (snd (cleanupExpiredTokens
        (world_of two_device_store))))) ''u1''
      = filter (\<lambda>family. token_families (redis (world_of two_device_store)) family \<noteq> None)
            (members (user_sessions (redis (world_of two_device_store))) ''u1'')"
    by blast
  then have 2: "members (user_sessions (redis (snd (cleanupExpiredTokens
        (world_of two_device_store))))) ''u1'' = [''f1'', ''f2'', ''f4'']"
    by (simp only: r m' flt)
  from run have 3: "token_families (redis (snd (cleanupExpiredTokens (world_of two_device_store))))
       = token_families two_device_store"
    by (simp add: r)
  from h m p 1 2 3 show ?thesis by blast
qed

end
